theory Spec2Isabelle
  imports Main "HOL-Library.Word"
begin

section \<open>Data model of the NFTX order reconciler\<close>

text \<open>
  The development follows \<^verbatim>\<open>src/orderbook/orders/nftx/index.ts\<close>. Amounts are the
  integers that the source keeps as decimal strings and feeds to \<^verbatim>\<open>bn(...)\<close>;
  a field that the source tests for truthiness is an \<open>option\<close>, \<open>None\<close> standing
  for the absent (falsy) value. Addresses, token ids and transaction hashes stay strings.
\<close>

datatype side = Buy | Sell

fun side_str :: "side \<Rightarrow> string" where
  "side_str Buy = ''buy''"
| "side_str Sell = ''sell''"

datatype error = Error string | TypeError

datatype trigger = NewOrder | Reprice

datatype fillability = Fillable | NoBalance

datatype expiry = Infinity | At int

record OrderParams =
  pool :: string
  txTimestamp :: int
  txHash :: string

record 'h SaveResult =
  res_id :: 'h
  res_txHash :: string
  status :: string
  triggerKind :: "trigger option"

text \<open>What \<^verbatim>\<open>nftx.getNftPoolDetails\<close> returns for a pool.\<close>

record NftPool =
  address :: string
  nft :: string
  vaultId :: int

text \<open>
  One quote of \<^verbatim>\<open>Sdk.Nftx.Helpers.getPoolPrice\<close>: the prices with slippage
  (\<open>sell\<close>, \<open>buy\<close>), the raw prices (\<open>raw.sell\<close>, \<open>raw.buy\<close>), the fee rates
  (\<open>bps.sell\<close>, \<open>bps.buy\<close>) and the currency.
\<close>

record PoolPrice =
  sell :: "int option"
  buy :: "int option"
  raw_sell :: "int option"
  raw_buy :: "int option"
  bps_sell :: int
  bps_buy :: int
  currency :: string

record fee_entry =
  fe_kind :: string
  fe_recipient :: string
  fe_bps :: int

record royalty =
  roy_bps :: int
  roy_recipient :: string

record missing_royalty =
  mr_bps :: int
  mr_amount :: int
  mr_recipient :: string

text \<open>The parameters handed to \<^verbatim>\<open>new Sdk.Nftx.Order\<close>, stored as \<open>raw_data\<close>.\<close>

record sdk_params =
  sp_vaultId :: int
  sp_collection :: string
  sp_pool :: string
  sp_specificIds :: "string list"
  sp_currency :: string
  sp_amount :: "string option"
  sp_path :: "string list"
  sp_price :: int
  sp_prices :: "int list"

text \<open>
  A row of the \<open>orders\<close> table (\<^verbatim>\<open>DbOrder\<close>). The columns that the source always writes
  as \<open>null\<close> (\<open>needs_conversion\<close>, \<open>nonce\<close>, \<open>is_reservoir\<close>, \<open>conduit\<close>, \<open>dynamic\<close>)
  carry no information and are left out; \<open>updated_at = now()\<close> is wall-clock time and is
  left out as well. \<open>valid_between\<close> is the closed range from the transaction time to
  its upper end.
\<close>

record 'h DbOrder =
  order_id :: 'h
  kind :: string
  order_side :: side
  fillability_status :: fillability
  approval_status :: string
  token_set_id :: string
  token_set_schema_hash :: string
  maker :: string
  taker :: string
  price :: int
  order_value :: int
  order_currency :: string
  currency_price :: int
  currency_value :: int
  quantity_remaining :: nat
  valid_between :: "int \<times> expiry"
  source_id_int :: "int option"
  contract :: string
  fee_bps :: int
  fee_breakdown :: "fee_entry list"
  raw_data :: sdk_params
  expiration :: expiry
  missing_royalties :: "missing_royalty list"
  normalized_value :: int
  currency_normalized_value :: int

text \<open>The parameters of the two \<^verbatim>\<open>UPDATE orders SET fillability_status = 'fillable', ...\<close>
  statements (lines 218-250 and 421-452).\<close>

record 'h OrderUpdate =
  u_id :: 'h
  u_price :: int
  u_value :: int
  u_quantityRemaining :: nat
  u_txTimestamp :: int
  u_rawData :: sdk_params
  u_missingRoyalties :: "missing_royalty list"
  u_normalizedValue :: int
  u_currencyNormalizedValue :: int
  u_feeBps :: int
  u_feeBreakdown :: "fee_entry list"

text \<open>The write statements that \<^verbatim>\<open>save\<close> sends through \<^verbatim>\<open>idb.none\<close>.\<close>

datatype 'h db_stmt =
    UpdateFillable "'h OrderUpdate"
  | UpdateNoBalance 'h int
  | InsertIgnore "'h DbOrder list"

text \<open>A job handed to \<^verbatim>\<open>ordersUpdateById.addToQueue\<close>; the context string
  \<^verbatim>\<open>${triggerKind}-${id}-${txHash}\<close> is kept as its three parts.\<close>

record 'h job =
  job_context :: "trigger option \<times> 'h \<times> string"
  job_id :: 'h
  job_trigger :: "trigger option"

text \<open>
  The collaborators of \<^verbatim>\<open>save\<close>, none of which is defined in the source file. Each call
  that can reject returns \<open>Inl\<close> of the error. \<open>keccak256\<close> is
  \<^verbatim>\<open>@ethersproject/solidity\<close>'s hash of a list of typed values (type names, values;
  \<open>None\<close> is \<^verbatim>\<open>undefined\<close>).
\<close>

record 'h env =
  keccak256 :: "string list \<Rightarrow> string option list \<Rightarrow> 'h"
  getNftPoolDetails :: "string \<Rightarrow> error + NftPool option"
  getPoolPrice :: "string \<Rightarrow> nat \<Rightarrow> nat \<Rightarrow> error + PoolPrice"
  getRoyaltiesByTokenSet :: "string \<Rightarrow> string \<Rightarrow> error + royalty list"
  getNfts :: "string \<Rightarrow> string \<Rightarrow> error + string list"
  generateSchemaHash :: string
  contractWide_save :: "string \<Rightarrow> string \<Rightarrow> string \<Rightarrow> error + string list"
  singleToken_save :: "string \<Rightarrow> string \<Rightarrow> string \<Rightarrow> string \<Rightarrow> error + string list"
  sources_getOrInsert :: "string \<Rightarrow> error + int option"
  weth :: string

text \<open>
  The mutable state of one call of \<^verbatim>\<open>save\<close>: the two arrays \<open>results\<close> and
  \<open>orderValues\<close>, the \<open>orders\<close> table, and the log of the write statements issued so far.
\<close>

record 'h state =
  results :: "'h SaveResult list"
  orderValues :: "'h DbOrder list"
  orders :: "'h DbOrder list"
  statements :: "'h db_stmt list"

section \<open>Order identity\<close>

text \<open>\<^verbatim>\<open>getOrderId\<close> (lines 35-40). A buy order has one id per pool and the token id
  does not enter the hash; a sell order hashes the token id as a fourth value.\<close>

definition getOrderId ::
  "(string list \<Rightarrow> string option list \<Rightarrow> 'h) \<Rightarrow> string \<Rightarrow> side \<Rightarrow> string option \<Rightarrow> 'h" where
  "getOrderId keccak p sd tokenId =
     (if sd = Buy
      then keccak [''string'', ''address'', ''string''] [Some ''nftx'', Some p, Some (side_str sd)]
      else keccak [''string'', ''address'', ''string'', ''uint256'']
             [Some ''nftx'', Some p, Some (side_str sd), tokenId])"

section \<open>The store and the two arrays\<close>

definition set_fillable :: "'h OrderUpdate \<Rightarrow> 'h DbOrder \<Rightarrow> 'h DbOrder" where
  "set_fillable u r =
     r\<lparr>fillability_status := Fillable,
       price := u_price u,
       currency_price := u_price u,
       order_value := u_value u,
       currency_value := u_value u,
       quantity_remaining := u_quantityRemaining u,
       valid_between := (u_txTimestamp u, Infinity),
       expiration := Infinity,
       raw_data := u_rawData u,
       missing_royalties := u_missingRoyalties u,
       normalized_value := u_normalizedValue u,
       currency_normalized_value := u_currencyNormalizedValue u,
       fee_bps := u_feeBps u,
       fee_breakdown := u_feeBreakdown u\<rparr>"

definition set_no_balance :: "int \<Rightarrow> 'h DbOrder \<Rightarrow> 'h DbOrder" where
  "set_no_balance ts r = r\<lparr>fillability_status := NoBalance, expiration := At ts\<rparr>"

text \<open>\<^verbatim>\<open>INSERT ... ON CONFLICT DO NOTHING\<close>, the conflict being on the primary key
  \<open>orders.id\<close>: a row whose id is already in the table, or earlier in the same
  statement, is skipped.\<close>

definition insert_ignore :: "'h DbOrder list \<Rightarrow> 'h DbOrder \<Rightarrow> 'h DbOrder list" where
  "insert_ignore os r = (if order_id r \<in> set (map order_id os) then os else os @ [r])"

fun exec :: "'h db_stmt \<Rightarrow> 'h DbOrder list \<Rightarrow> 'h DbOrder list" where
  "exec (UpdateFillable u) os = map (\<lambda>r. if order_id r = u_id u then set_fillable u r else r) os"
| "exec (UpdateNoBalance i ts) os = map (\<lambda>r. if order_id r = i then set_no_balance ts r else r) os"
| "exec (InsertIgnore rows) os = foldl insert_ignore os rows"

definition idb_none :: "'h db_stmt \<Rightarrow> 'h state \<Rightarrow> 'h state" where
  "idb_none stmt st = st\<lparr>orders := exec stmt (orders st), statements := statements st @ [stmt]\<rparr>"

text \<open>\<^verbatim>\<open>redb.oneOrNone("SELECT 1 FROM orders WHERE orders.id = $/id/")\<close>: the row or
  \<open>null\<close>; the driver rejects a result of more than one row. The source reads from the
  replica \<open>redb\<close> and writes through \<open>idb\<close>; the model keeps one table, so a read sees
  every write made before it. The table is a value of the model: a fault of the database
  connection itself is not modelled.\<close>

definition redb_oneOrNone :: "'h state \<Rightarrow> 'h \<Rightarrow> error + bool" where
  "redb_oneOrNone st i =
     (case filter (\<lambda>r. order_id r = i) (orders st) of
        [] \<Rightarrow> Inr False
      | [r] \<Rightarrow> Inr True
      | _ \<Rightarrow> Inl (Error ''Multiple rows were not expected.''))"

definition push_result :: "'h SaveResult \<Rightarrow> 'h state \<Rightarrow> 'h state" where
  "push_result r st = st\<lparr>results := results st @ [r]\<rparr>"

definition push_orderValues :: "'h DbOrder \<Rightarrow> 'h state \<Rightarrow> 'h state" where
  "push_orderValues v st = st\<lparr>orderValues := orderValues st @ [v]\<rparr>"

definition success :: "'h \<Rightarrow> OrderParams \<Rightarrow> trigger \<Rightarrow> 'h SaveResult" where
  "success i orderParams k =
     \<lparr>res_id = i, res_txHash = txHash orderParams, status = ''success'', triggerKind = Some k\<rparr>"

section \<open>Royalties on top\<close>

definition AddressZero :: string where
  "AddressZero = ''0x0000000000000000000000000000000000000000''"

text \<open>\<^verbatim>\<open>BigNumber.div\<close> truncates towards zero.\<close>

definition bn_div :: "int \<Rightarrow> int \<Rightarrow> int" where
  "bn_div a b = sgn a * sgn b * (\<bar>a\<bar> div \<bar>b\<bar>)"

text \<open>
  Lines 109-130 and, word for word, 311-330: the missing royalties and their amount.
  \<open>bn(price)\<close> rejects an undefined price, which is the case when no quote of the ladder
  carries a raw price.
\<close>

definition royaltiesOnTop ::
  "royalty list \<Rightarrow> int option \<Rightarrow> error + missing_royalty list \<times> int" where
  "royaltiesOnTop defaultRoyalties pr =
     (let totalBuiltInBps = 0;
          totalDefaultBps = foldl (+) 0 (map roy_bps defaultRoyalties)
      in if totalBuiltInBps < totalDefaultBps
         then (case filter (\<lambda>r. roy_bps r \<noteq> 0 \<and> roy_recipient r \<noteq> AddressZero) defaultRoyalties of
                 [] \<Rightarrow> Inr ([], 0)
               | v # _ \<Rightarrow>
                   (case pr of
                      None \<Rightarrow> Inl (Error ''invalid BigNumber value'')
                    | Some p \<Rightarrow>
                        let bpsDiff = totalDefaultBps - totalBuiltInBps;
                            amount = bn_div (p * bpsDiff) 10000
                        in Inr ([\<lparr>mr_bps = bpsDiff, mr_amount = amount,
                                  mr_recipient = roy_recipient v\<rparr>], 0 + amount)))
         else Inr ([], 0))"

section \<open>The buy leg\<close>

type_synonym fees = "int \<times> fee_entry list"

definition marketplace :: "NftPool \<Rightarrow> int \<Rightarrow> fee_entry" where
  "marketplace p b = \<lparr>fe_kind = ''marketplace'', fe_recipient = address p, fe_bps = b\<rparr>"

definition first_price :: "int list \<Rightarrow> int option" where
  "first_price prices = (case prices of [] \<Rightarrow> None | x # _ \<Rightarrow> Some x)"

text \<open>The ids of the token sets: \<^verbatim>\<open>`contract:${pool.nft}`\<close> and
  \<^verbatim>\<open>`token:${pool.nft}:${tokenId}`\<close>.\<close>

definition contractTokenSet :: "string \<Rightarrow> string" where
  "contractTokenSet c = ''contract:'' @ c"

definition singleTokenSet :: "string \<Rightarrow> string \<Rightarrow> string" where
  "singleTokenSet c tokenId = ''token:'' @ c @ '':'' @ tokenId"

text \<open>The parameters of the SDK order of a buy order (lines 135-146) and of the sell
  order of one token id (lines 341-353).\<close>

definition buy_sdkOrder :: "'h env \<Rightarrow> NftPool \<Rightarrow> int \<Rightarrow> int list \<Rightarrow> sdk_params" where
  "buy_sdkOrder env p pr prices =
     \<lparr>sp_vaultId = vaultId p, sp_collection = nft p, sp_pool = address p,
      sp_specificIds = [], sp_currency = weth env, sp_amount = None,
      sp_path = [address p, weth env], sp_price = pr, sp_prices = prices\<rparr>"

definition sell_sdkOrder :: "'h env \<Rightarrow> NftPool \<Rightarrow> string \<Rightarrow> int \<Rightarrow> int list \<Rightarrow> sdk_params" where
  "sell_sdkOrder env p tokenId pr prices =
     \<lparr>sp_vaultId = vaultId p, sp_collection = nft p, sp_pool = address p,
      sp_specificIds = [tokenId], sp_currency = weth env, sp_amount = Some ''1'',
      sp_path = [weth env, address p], sp_price = pr, sp_prices = prices\<rparr>"

text \<open>The values bound to the parameters of the \<^verbatim>\<open>UPDATE\<close> of a fillable order.\<close>

definition fillable_update ::
  "'h \<Rightarrow> int \<Rightarrow> int \<Rightarrow> nat \<Rightarrow> OrderParams \<Rightarrow> sdk_params \<Rightarrow> missing_royalty list \<Rightarrow> int \<Rightarrow>
   fees \<Rightarrow> 'h OrderUpdate" where
  "fillable_update i pr v quantityRemaining orderParams sdkOrder missingRoyalties normalizedValue fs =
     \<lparr>u_id = i, u_price = pr, u_value = v, u_quantityRemaining = quantityRemaining,
      u_txTimestamp = txTimestamp orderParams, u_rawData = sdkOrder,
      u_missingRoyalties = missingRoyalties, u_normalizedValue = normalizedValue,
      u_currencyNormalizedValue = normalizedValue, u_feeBps = fst fs,
      u_feeBreakdown = snd fs\<rparr>"

definition buy_row ::
  "'h env \<Rightarrow> OrderParams \<Rightarrow> NftPool \<Rightarrow> 'h \<Rightarrow> string \<Rightarrow> int option \<Rightarrow> string \<Rightarrow>
   int \<Rightarrow> int \<Rightarrow> int list \<Rightarrow> fees \<Rightarrow> sdk_params \<Rightarrow> missing_royalty list \<Rightarrow> int \<Rightarrow> 'h DbOrder" where
  "buy_row env orderParams p i tokenSetId source cur pr v prices fs sdkOrder missingRoyalties normalizedValue =
     \<lparr>order_id = i, kind = ''nftx'', order_side = Buy, fillability_status = Fillable,
      approval_status = ''approved'', token_set_id = tokenSetId,
      token_set_schema_hash = generateSchemaHash env, maker = address p, taker = AddressZero,
      price = pr, order_value = v, order_currency = cur, currency_price = pr,
      currency_value = v, quantity_remaining = length prices,
      valid_between = (txTimestamp orderParams, Infinity), source_id_int = source,
      contract = nft p, fee_bps = fst fs, fee_breakdown = snd fs, raw_data = sdkOrder,
      expiration = Infinity, missing_royalties = missingRoyalties,
      normalized_value = normalizedValue, currency_normalized_value = normalizedValue\<rparr>"

text \<open>Lines 103-257: the body of \<^verbatim>\<open>if (sell)\<close> after the fee has been recorded. Every
  rejection happens before the first write to the state.\<close>

definition buyFillable ::
  "'h env \<Rightarrow> OrderParams \<Rightarrow> NftPool \<Rightarrow> 'h \<Rightarrow> string \<Rightarrow> int \<Rightarrow> int list \<Rightarrow> fees \<Rightarrow>
   'h state \<Rightarrow> error + 'h state" where
  "buyFillable env orderParams p i cur v prices fs st =
     (case getRoyaltiesByTokenSet env (contractTokenSet (nft p)) ''default'' of
        Inl e \<Rightarrow> Inl e
      | Inr defaultRoyalties \<Rightarrow>
     (case royaltiesOnTop defaultRoyalties (first_price prices) of
        Inl e \<Rightarrow> Inl e
      | Inr (missingRoyalties, missingRoyaltyAmount) \<Rightarrow>
     (let normalizedValue = v - missingRoyaltyAmount in
      case first_price prices of
        None \<Rightarrow> Inl TypeError
      | Some pr \<Rightarrow>
     (let sdkOrder = buy_sdkOrder env p pr prices in
      case redb_oneOrNone st i of
        Inl e \<Rightarrow> Inl e
      | Inr False \<Rightarrow>
          (case contractWide_save env (contractTokenSet (nft p)) (generateSchemaHash env) (nft p) of
             Inl e \<Rightarrow> Inl e
           | Inr [] \<Rightarrow> Inl TypeError
           | Inr (tokenSetId # _) \<Rightarrow>
               if tokenSetId = [] then Inl (Error ''No token set available'')
               else (case sources_getOrInsert env ''nftx.io'' of
                       Inl e \<Rightarrow> Inl e
                     | Inr source \<Rightarrow>
                         Inr (push_result (success i orderParams NewOrder)
                               (push_orderValues
                                 (buy_row env orderParams p i tokenSetId source cur pr v prices fs
                                    sdkOrder missingRoyalties normalizedValue) st))))
      | Inr True \<Rightarrow>
          Inr (push_result (success i orderParams Reprice)
                (idb_none (UpdateFillable
                   (fillable_update i pr v (length prices) orderParams sdkOrder missingRoyalties
                      normalizedValue fs)) st))))))"

text \<open>Lines 80-281, the \<^verbatim>\<open>try\<close> block of the buy orders with its \<^verbatim>\<open>catch\<close>, which only
  logs. \<open>feeBps\<close> and \<open>feeBreakdown\<close> belong to the enclosing \<^verbatim>\<open>handleOrder\<close>, so the
  fee pair is returned beside the state, also when the block fails.\<close>

definition handleBuyOrders ::
  "'h env \<Rightarrow> OrderParams \<Rightarrow> NftPool \<Rightarrow> PoolPrice list \<Rightarrow> fees \<Rightarrow> 'h state \<Rightarrow> fees \<times> 'h state" where
  "handleBuyOrders env orderParams p priceList fs st =
     (case priceList of
        [] \<Rightarrow> (fs, st)
      | q0 # _ \<Rightarrow>
          let i = getOrderId (keccak256 env) (pool orderParams) Buy None;
              prices = List.map_filter raw_sell priceList
          in (case sell q0 of
                Some v \<Rightarrow>
                  let feeBps = bps_sell q0;
                      fs' = (feeBps, snd fs @ [marketplace p feeBps])
                  in (fs', case buyFillable env orderParams p i (currency q0) v prices fs' st of
                             Inl e \<Rightarrow> st
                           | Inr st' \<Rightarrow> st')
              | None \<Rightarrow>
                  (fs, push_result (success i orderParams Reprice)
                         (idb_none (UpdateNoBalance i (txTimestamp orderParams)) st))))"

section \<open>The sell leg\<close>

definition sell_row ::
  "'h env \<Rightarrow> OrderParams \<Rightarrow> NftPool \<Rightarrow> 'h \<Rightarrow> string \<Rightarrow> int option \<Rightarrow> string \<Rightarrow>
   int \<Rightarrow> int \<Rightarrow> fees \<Rightarrow> sdk_params \<Rightarrow> missing_royalty list \<Rightarrow> int \<Rightarrow> 'h DbOrder" where
  "sell_row env orderParams p i tokenSetId source cur pr v fs sdkOrder missingRoyalties normalizedValue =
     \<lparr>order_id = i, kind = ''nftx'', order_side = Sell, fillability_status = Fillable,
      approval_status = ''approved'', token_set_id = tokenSetId,
      token_set_schema_hash = generateSchemaHash env, maker = address p, taker = AddressZero,
      price = pr, order_value = v, order_currency = cur, currency_price = pr,
      currency_value = v, quantity_remaining = 1,
      valid_between = (txTimestamp orderParams, Infinity), source_id_int = source,
      contract = nft p, fee_bps = fst fs, fee_breakdown = snd fs, raw_data = sdkOrder,
      expiration = Infinity, missing_royalties = missingRoyalties,
      normalized_value = normalizedValue, currency_normalized_value = normalizedValue\<rparr>"

text \<open>Lines 338-460: the \<^verbatim>\<open>try\<close> block run for one token id of the pool.\<close>

definition sellItem ::
  "'h env \<Rightarrow> OrderParams \<Rightarrow> NftPool \<Rightarrow> string \<Rightarrow> int \<Rightarrow> int list \<Rightarrow> fees \<Rightarrow>
   missing_royalty list \<Rightarrow> int \<Rightarrow> string \<Rightarrow> 'h state \<Rightarrow> error + 'h state" where
  "sellItem env orderParams p cur v prices fs missingRoyalties normalizedValue tokenId st =
     (let i = getOrderId (keccak256 env) (pool orderParams) Sell (Some tokenId) in
      case first_price prices of
        None \<Rightarrow> Inl TypeError
      | Some pr \<Rightarrow>
     (let sdkOrder = sell_sdkOrder env p tokenId pr prices in
      case redb_oneOrNone st i of
        Inl e \<Rightarrow> Inl e
      | Inr False \<Rightarrow>
          (case singleToken_save env (singleTokenSet (nft p) tokenId) (generateSchemaHash env)
                  (nft p) tokenId of
             Inl e \<Rightarrow> Inl e
           | Inr [] \<Rightarrow> Inl TypeError
           | Inr (tokenSetId # _) \<Rightarrow>
               if tokenSetId = [] then Inl (Error ''No token set available'')
               else (case sources_getOrInsert env ''nftx.io'' of
                       Inl e \<Rightarrow> Inl e
                     | Inr source \<Rightarrow>
                         Inr (push_result (success i orderParams NewOrder)
                               (push_orderValues
                                 (sell_row env orderParams p i tokenSetId source cur pr v fs
                                    sdkOrder missingRoyalties normalizedValue) st))))
      | Inr True \<Rightarrow>
          Inr (push_result (success i orderParams Reprice)
                (idb_none (UpdateFillable
                   (fillable_update i pr v 1 orderParams sdkOrder missingRoyalties
                      normalizedValue fs)) st))))"

text \<open>Lines 336-464: one round of the loop over the token ids, with its
  \<^verbatim>\<open>catch { /* Ignore any errors */ }\<close>.\<close>

definition handleTokenId ::
  "'h env \<Rightarrow> OrderParams \<Rightarrow> NftPool \<Rightarrow> string \<Rightarrow> int \<Rightarrow> int list \<Rightarrow> fees \<Rightarrow>
   missing_royalty list \<Rightarrow> int \<Rightarrow> 'h state \<Rightarrow> string \<Rightarrow> 'h state" where
  "handleTokenId env orderParams p cur v prices fs missingRoyalties normalizedValue st tokenId =
     (case sellItem env orderParams p cur v prices fs missingRoyalties normalizedValue tokenId st of
        Inl e \<Rightarrow> st
      | Inr st' \<Rightarrow> st')"

text \<open>Lines 306-333: what the sell leg computes once, before the loop.\<close>

definition sellPrepare ::
  "'h env \<Rightarrow> NftPool \<Rightarrow> int \<Rightarrow> int list \<Rightarrow> error + missing_royalty list \<times> int \<times> string list" where
  "sellPrepare env p v prices =
     (case getRoyaltiesByTokenSet env (contractTokenSet (nft p)) ''default'' of
        Inl e \<Rightarrow> Inl e
      | Inr defaultRoyalties \<Rightarrow>
     (case royaltiesOnTop defaultRoyalties (first_price prices) of
        Inl e \<Rightarrow> Inl e
      | Inr (missingRoyalties, missingRoyaltyAmount) \<Rightarrow>
     (let normalizedValue = v + missingRoyaltyAmount in
      case getNfts env (nft p) (address p) of
        Inl e \<Rightarrow> Inl e
      | Inr poolOwnedTokenIds \<Rightarrow> Inr (missingRoyalties, normalizedValue, poolOwnedTokenIds))))"

text \<open>Lines 283-471, the \<^verbatim>\<open>try\<close> block of the sell orders with its \<^verbatim>\<open>catch\<close>.\<close>

definition handleSellOrders ::
  "'h env \<Rightarrow> OrderParams \<Rightarrow> NftPool \<Rightarrow> PoolPrice list \<Rightarrow> fees \<Rightarrow> 'h state \<Rightarrow> fees \<times> 'h state" where
  "handleSellOrders env orderParams p priceList fs st =
     (case priceList of
        [] \<Rightarrow> (fs, st)
      | q0 # _ \<Rightarrow>
          let prices = List.map_filter raw_buy priceList
          in (case buy q0 of
                Some v \<Rightarrow>
                  let feeBps = bps_buy q0;
                      fs' = (feeBps, snd fs @ [marketplace p feeBps])
                  in (fs', case sellPrepare env p v prices of
                             Inl e \<Rightarrow> st
                           | Inr (missingRoyalties, normalizedValue, poolOwnedTokenIds) \<Rightarrow>
                               foldl (handleTokenId env orderParams p (currency q0) v prices fs'
                                        missingRoyalties normalizedValue) st poolOwnedTokenIds)
              | None \<Rightarrow> (fs, st)))"

section \<open>One pool event and the batch\<close>

definition slippage :: nat where
  "slippage = 2"

text \<open>Lines 59-70: ten quotes, asked one after the other; a rejected call ends the event.\<close>

function priceLoop ::
  "'h env \<Rightarrow> string \<Rightarrow> nat \<Rightarrow> PoolPrice list \<Rightarrow> error + PoolPrice list" where
  "priceLoop env pl index priceList =
     (if index < 10
      then (case getPoolPrice env pl (index + 1) slippage of
              Inl e \<Rightarrow> Inl e
            | Inr poolPrice \<Rightarrow> priceLoop env pl (index + 1) (priceList @ [poolPrice]))
      else Inr priceList)"
  by pat_completeness auto
termination
  by (relation "measure (\<lambda>(env, pl, index, priceList). 10 - index)") auto

declare priceLoop.simps [simp del]

definition allowedPool :: string where
  "allowedPool = ''0x569a0ff212efe6b2fac806765ef59ce6685f2dd2''"

text \<open>
  Every row that one event pushes to \<open>orderValues\<close> holds the event's own \<open>feeBreakdown\<close>
  array, not a copy (lines 202 and 405), and the array is serialised only by the bulk
  insert. So a push to \<open>feeBreakdown\<close> by the sell leg (line 300) also shows in the buy row
  pushed before it. \<open>shareFeeBreakdown n fb\<close> gives the rows from position \<open>n\<close> on, the
  rows of this event, the final contents of the array.
\<close>

definition shareFeeBreakdown :: "nat \<Rightarrow> fee_entry list \<Rightarrow> 'h state \<Rightarrow> 'h state" where
  "shareFeeBreakdown n fb st =
     st\<lparr>orderValues := take n (orderValues st) @
                          map (\<lambda>r. r\<lparr>fee_breakdown := fb\<rparr>) (drop n (orderValues st))\<rparr>"

text \<open>Lines 47-478: \<^verbatim>\<open>handleOrder\<close>. Each of the three \<^verbatim>\<open>catch\<close> blocks only logs.\<close>

definition handleOrder :: "'h env \<Rightarrow> 'h state \<Rightarrow> OrderParams \<Rightarrow> 'h state" where
  "handleOrder env st orderParams =
     (case getNftPoolDetails env (pool orderParams) of
        Inl e \<Rightarrow> st
      | Inr None \<Rightarrow> st
      | Inr (Some p) \<Rightarrow>
          if pool orderParams \<noteq> allowedPool then st
          else (case priceLoop env (pool orderParams) 0 [] of
                  Inl e \<Rightarrow> st
                | Inr priceList \<Rightarrow>
                    let (fs1, st1) = handleBuyOrders env orderParams p priceList (0, []) st;
                        (fs2, st2) = handleSellOrders env orderParams p priceList fs1 st1
                    in shareFeeBreakdown (length (orderValues st)) (snd fs2) st2))"

text \<open>Lines 484-522: the bulk insert, issued only when there is a row to insert.\<close>

definition flush :: "'h state \<Rightarrow> 'h state" where
  "flush st = (if orderValues st \<noteq> [] then idb_none (InsertIgnore (orderValues st)) st else st)"

text \<open>Lines 524-537: the jobs queued for the results.\<close>

definition toJobs :: "'h SaveResult list \<Rightarrow> 'h job list" where
  "toJobs rs =
     map (\<lambda>r. \<lparr>job_context = (triggerKind r, res_id r, res_txHash r), job_id = res_id r,
               job_trigger = triggerKind r\<rparr>)
         (filter (\<lambda>r. status r = ''success'') rs)"

text \<open>
  Lines 42-540: \<^verbatim>\<open>save\<close>, started on the table \<open>os\<close>. \<open>blank os\<close> is the state at
  its start, with both arrays empty. Line 482 starts the events together, under
  \<^verbatim>\<open>pLimit(20)\<close>, and waits for all of them. \<open>handleAll\<close> is the run in which each event
  has finished before the next one starts, in the order of the batch; \<open>save\<close> is that
  run followed by the bulk insert. The runs of every other schedule are those of
  \<open>allHandled\<close> below: they record the same results, rows and statements as
  \<open>handleAll\<close>, in an order that depends on the schedule. The value returned by the
  source is the \<open>results\<close> field of the final state; the queued jobs come second.
\<close>

definition blank :: "'h DbOrder list \<Rightarrow> 'h state" where
  "blank os = \<lparr>results = [], orderValues = [], orders = os, statements = []\<rparr>"

definition handleAll :: "'h env \<Rightarrow> OrderParams list \<Rightarrow> 'h DbOrder list \<Rightarrow> 'h state" where
  "handleAll env orderInfos os = foldl (handleOrder env) (blank os) orderInfos"

definition save :: "'h env \<Rightarrow> OrderParams list \<Rightarrow> 'h DbOrder list \<Rightarrow> 'h state \<times> 'h job list" where
  "save env orderInfos os =
     (let st = flush (handleAll env orderInfos os)
      in (st, toJobs (results st)))"

section \<open>Notions used in the statements and proofs\<close>

subsection \<open>Royalties of a row and of an update\<close>

text \<open>
  What ties a buffered row, or the parameters of an update, to the royalty registry: the
  registered schedule of the order's collection, run through \<open>royaltiesOnTop\<close> at the
  order's price, gives the order's missing royalties, and their amount is taken off the
  value of a buy order and put on the value of a sell order. An update does not name its
  side; the buy leg writes no specific id into the SDK order, the sell leg writes one.
\<close>

definition rowOK :: "'h env \<Rightarrow> 'h DbOrder \<Rightarrow> bool" where
  "rowOK env r \<longleftrightarrow>
     (\<exists>rs a. getRoyaltiesByTokenSet env (contractTokenSet (contract r)) ''default'' = Inr rs \<and>
        royaltiesOnTop rs (Some (price r)) = Inr (missing_royalties r, a) \<and>
        normalized_value r = (if order_side r = Buy then order_value r - a else order_value r + a))"

definition updOK :: "'h env \<Rightarrow> 'h OrderUpdate \<Rightarrow> bool" where
  "updOK env u \<longleftrightarrow>
     (\<exists>rs a. getRoyaltiesByTokenSet env (contractTokenSet (sp_collection (u_rawData u))) ''default''
                = Inr rs \<and>
        royaltiesOnTop rs (Some (u_price u)) = Inr (u_missingRoyalties u, a) \<and>
        u_normalizedValue u =
          (if sp_specificIds (u_rawData u) = [] then u_value u - a else u_value u + a))"

definition stOK :: "'h env \<Rightarrow> 'h state \<Rightarrow> bool" where
  "stOK env st \<longleftrightarrow>
     (\<forall>r\<in>set (orderValues st). rowOK env r) \<and>
     (\<forall>u. UpdateFillable u \<in> set (statements st) \<longrightarrow> updOK env u)"

subsection \<open>Steps that only add to the state\<close>

text \<open>
  \<open>extend st d\<close> adds to \<open>st\<close> what a run \<open>d\<close> recorded: its results, its buffered rows
  and its statements, executed on the table of \<open>st\<close>. A step is \<open>isolated\<close> when, on any
  state, it adds exactly what it records when run alone on a fresh state with the same
  order ids, and issues updates only.
\<close>

definition extend :: "'h state \<Rightarrow> 'h state \<Rightarrow> 'h state" where
  "extend st d =
     \<lparr>results = results st @ results d, orderValues = orderValues st @ orderValues d,
      orders = foldl (\<lambda>os s. exec s os) (orders st) (statements d),
      statements = statements st @ statements d\<rparr>"

fun is_update :: "'h db_stmt \<Rightarrow> bool" where
  "is_update (InsertIgnore rows) = False"
| "is_update (UpdateFillable u) = True"
| "is_update (UpdateNoBalance i ts) = True"

definition isolated :: "('h state \<Rightarrow> 'h state) \<Rightarrow> bool" where
  "isolated f \<longleftrightarrow>
     (\<forall>st os. map order_id (orders st) = map order_id os \<longrightarrow>
        f st = extend st (f (blank os)) \<and> list_all is_update (statements (f (blank os))))"

text \<open>The fee pair after the buy leg and after the sell leg: it depends on the first
  quote alone, not on whether the leg fails.\<close>

definition feesAfterBuy :: "NftPool \<Rightarrow> PoolPrice list \<Rightarrow> fees \<Rightarrow> fees" where
  "feesAfterBuy p priceList fs =
     (case priceList of
        [] \<Rightarrow> fs
      | q0 # _ \<Rightarrow> (case sell q0 of
                     None \<Rightarrow> fs
                   | Some v \<Rightarrow> (bps_sell q0, snd fs @ [marketplace p (bps_sell q0)])))"

definition feesAfterSell :: "NftPool \<Rightarrow> PoolPrice list \<Rightarrow> fees \<Rightarrow> fees" where
  "feesAfterSell p priceList fs =
     (case priceList of
        [] \<Rightarrow> fs
      | q0 # _ \<Rightarrow> (case buy q0 of
                     None \<Rightarrow> fs
                   | Some v \<Rightarrow> (bps_buy q0, snd fs @ [marketplace p (bps_buy q0)])))"

subsection \<open>Results, buffered rows and the table\<close>

text \<open>
  How the results, the buffered rows, the statements and the table hang together: the
  results tagged new-order are, in order, the results of the buffered rows; every result
  is a success tagged new-order or reprice; no buffered row has an id that is in the
  table; and the results tagged reprice are, in order, those of the statements issued.
\<close>

text \<open>The order ids that a statement addresses.\<close>

fun targets :: "'h db_stmt \<Rightarrow> 'h list" where
  "targets (UpdateFillable u) = [u_id u]"
| "targets (UpdateNoBalance i ts) = [i]"
| "targets (InsertIgnore rows) = map order_id rows"

definition tagged :: "'h state \<Rightarrow> bool" where
  "tagged st \<longleftrightarrow>
     map res_id (filter (\<lambda>r. triggerKind r = Some NewOrder) (results st)) =
       map order_id (orderValues st) \<and>
     list_all (\<lambda>r. status r = ''success'' \<and>
                 (triggerKind r = Some NewOrder \<or> triggerKind r = Some Reprice)) (results st) \<and>
     set (map order_id (orderValues st)) \<inter> set (map order_id (orders st)) = {} \<and>
     map res_id (filter (\<lambda>r. triggerKind r = Some Reprice) (results st)) =
       concat (map targets (statements st))"

text \<open>
  \<open>refreshed u x\<close>: the row \<open>x\<close> carries the price, the value, the quantity, the
  validity, the SDK order, the royalties, the normalized value and the fee fields that the
  update \<open>u\<close> of a fillable order binds.
\<close>

definition refreshed :: "'h OrderUpdate \<Rightarrow> 'h DbOrder \<Rightarrow> bool" where
  "refreshed u x \<longleftrightarrow>
     price x = u_price u \<and> currency_price x = u_price u \<and>
     order_value x = u_value u \<and> currency_value x = u_value u \<and>
     quantity_remaining x = u_quantityRemaining u \<and>
     valid_between x = (u_txTimestamp u, Infinity) \<and>
     raw_data x = u_rawData u \<and>
     missing_royalties x = u_missingRoyalties u \<and>
     normalized_value x = u_normalizedValue u \<and>
     currency_normalized_value x = u_currencyNormalizedValue u \<and>
     fee_bps x = u_feeBps u \<and>
     fee_breakdown x = u_feeBreakdown u"

subsection \<open>Handling the same events on a later table\<close>

text \<open>
  \<open>upsert\<close> is the insert-or-update step that both legs share: look the id up, buffer
  the row and record new-order when no row has the id, update and record reprice when one
  row has it. \<open>newSellRow\<close> and \<open>newBuyRow\<close> are the rows that the insert branch
  builds, \<open>None\<close> when the token set or the source is not available. \<open>replays os os' f\<close>
  relates a run of \<open>f\<close> on the table \<open>os\<close> to its run on a later table \<open>os'\<close> that
  holds every id of \<open>os\<close> and exactly one row for each id the first run buffered: the
  later run buffers nothing, and for every id that the first run recorded as new-order it
  issues an update of a fillable order and records a reprice result.
\<close>

definition upsert ::
  "'h \<Rightarrow> OrderParams \<Rightarrow> 'h DbOrder option \<Rightarrow> 'h OrderUpdate \<Rightarrow> 'h state \<Rightarrow> 'h state" where
  "upsert i e row u st =
     (case redb_oneOrNone st i of
        Inl err \<Rightarrow> st
      | Inr False \<Rightarrow>
          (case row of
             None \<Rightarrow> st
           | Some r \<Rightarrow> push_result (success i e NewOrder) (push_orderValues r st))
      | Inr True \<Rightarrow> push_result (success i e Reprice) (idb_none (UpdateFillable u) st))"

definition newSellRow ::
  "'h env \<Rightarrow> OrderParams \<Rightarrow> NftPool \<Rightarrow> string \<Rightarrow> int \<Rightarrow> int list \<Rightarrow> fees \<Rightarrow>
   missing_royalty list \<Rightarrow> int \<Rightarrow> string \<Rightarrow> int \<Rightarrow> 'h DbOrder option" where
  "newSellRow env e p cur v prices fs mr nv t pr =
     (case singleToken_save env (singleTokenSet (nft p) t) (generateSchemaHash env) (nft p) t of
        Inl err \<Rightarrow> None
      | Inr l \<Rightarrow>
          (case l of
             [] \<Rightarrow> None
           | ts # tss \<Rightarrow>
               if ts = [] then None
               else (case sources_getOrInsert env ''nftx.io'' of
                       Inl err \<Rightarrow> None
                     | Inr src \<Rightarrow>
                         Some (sell_row env e p (getOrderId (keccak256 env) (pool e) Sell (Some t))
                                 ts src cur pr v fs (sell_sdkOrder env p t pr prices) mr nv))))"

definition newBuyRow ::
  "'h env \<Rightarrow> OrderParams \<Rightarrow> NftPool \<Rightarrow> 'h \<Rightarrow> string \<Rightarrow> int \<Rightarrow> int list \<Rightarrow> fees \<Rightarrow>
   missing_royalty list \<Rightarrow> int \<Rightarrow> int \<Rightarrow> 'h DbOrder option" where
  "newBuyRow env e p i cur v prices fs mr nv pr =
     (case contractWide_save env (contractTokenSet (nft p)) (generateSchemaHash env) (nft p) of
        Inl err \<Rightarrow> None
      | Inr l \<Rightarrow>
          (case l of
             [] \<Rightarrow> None
           | ts # tss \<Rightarrow>
               if ts = [] then None
               else (case sources_getOrInsert env ''nftx.io'' of
                       Inl err \<Rightarrow> None
                     | Inr src \<Rightarrow>
                         Some (buy_row env e p i ts src cur pr v prices fs
                                 (buy_sdkOrder env p pr prices) mr nv))))"

definition replays :: "'h DbOrder list \<Rightarrow> 'h DbOrder list \<Rightarrow> ('h state \<Rightarrow> 'h state) \<Rightarrow> bool" where
  "replays os os' f \<longleftrightarrow>
     (set (map order_id os) \<subseteq> set (map order_id os') \<longrightarrow>
      (\<forall>r\<in>set (orderValues (f (blank os))).
          length (filter (\<lambda>x. order_id x = order_id r) os') = 1) \<longrightarrow>
      orderValues (f (blank os')) = [] \<and>
      (\<forall>r\<in>set (results (f (blank os))). triggerKind r = Some NewOrder \<longrightarrow>
          (\<exists>r'\<in>set (results (f (blank os'))).
              res_id r' = res_id r \<and> triggerKind r' = Some Reprice) \<and>
          (\<exists>u. UpdateFillable u \<in> set (statements (f (blank os'))) \<and> u_id u = res_id r)))"

section \<open>The events of a batch, handled concurrently\<close>

text \<open>
  Lines 480-482: \<^verbatim>\<open>await Promise.all(orderInfos.map((orderInfo) => limit(() => handleOrder(orderInfo))))\<close>.
  Every \<^verbatim>\<open>handleOrder\<close> is an asynchronous function: it runs undisturbed from one
  \<^verbatim>\<open>await\<close> to the next, and between two of its steps any step of another event may
  happen. A \<open>task\<close> is what is left to do of such a function, as a sequence of steps
  on the shared state (the two arrays and the table): \<open>Step u k\<close> changes the state by
  \<open>u\<close> and continues with the task \<open>k st\<close> chosen from the state \<open>st\<close> it found.
  The calls of the collaborators in \<open>env\<close> do not touch the shared state and are no
  steps of their own.
\<close>

datatype 'h task = Done | Step "'h state \<Rightarrow> 'h state" "'h state \<Rightarrow> 'h task"

primrec seq :: "'h task \<Rightarrow> 'h task \<Rightarrow> 'h task" where
  "seq Done t = t"
| "seq (Step u k) t = Step u (\<lambda>st. seq (k st) t)"

text \<open>A step that only writes, and the read \<^verbatim>\<open>await redb.oneOrNone(...)\<close>.\<close>

definition atom :: "('h state \<Rightarrow> 'h state) \<Rightarrow> 'h task" where
  "atom f = Step f (\<lambda>st. Done)"

definition reading :: "'h \<Rightarrow> (error + bool \<Rightarrow> 'h task) \<Rightarrow> 'h task" where
  "reading i k = Step (\<lambda>st. st) (\<lambda>st. k (redb_oneOrNone st i))"

text \<open>A task run alone, from its first step to its last.\<close>

primrec run :: "'h task \<Rightarrow> 'h state \<Rightarrow> 'h state" where
  "run Done st = st"
| "run (Step u k) st = run (k st) (u st)"

text \<open>
  \<open>runs ts st st'\<close>: the tasks \<open>ts\<close>, started together on the state \<open>st\<close>, can end in
  the state \<open>st'\<close>. At every moment any unfinished task may take its next step.
  \<^verbatim>\<open>pLimit(20)\<close> lets at most twenty events run at a time and so allows fewer schedules
  than these, never more.
\<close>

inductive runs :: "'h task list \<Rightarrow> 'h state \<Rightarrow> 'h state \<Rightarrow> bool" where
  finished: "list_all (\<lambda>t. t = Done) ts \<Longrightarrow> runs ts st st"
| advance: "i < length ts \<Longrightarrow> ts ! i = Step u k \<Longrightarrow> runs (ts[i := k st]) (u st) st' \<Longrightarrow>
            runs ts st st'"

text \<open>
  Lines 148-257 and 355-460, from the lookup on: the read of the table is one step. When
  no row has the id, the row is built with two more calls of collaborators and then pushed
  together with its new-order result, in one go (lines 178-216 and 381-419 have no
  \<^verbatim>\<open>await\<close>). When a row has the id, the \<^verbatim>\<open>UPDATE\<close> is one step and the push of the
  reprice result, after the \<^verbatim>\<open>await\<close>, is the next.
\<close>

definition upsertTask ::
  "'h \<Rightarrow> OrderParams \<Rightarrow> 'h DbOrder option \<Rightarrow> 'h OrderUpdate \<Rightarrow> 'h task" where
  "upsertTask i orderParams row u =
     reading i (\<lambda>orderResult.
       case orderResult of
         Inl e \<Rightarrow> Done
       | Inr False \<Rightarrow>
           (case row of
              None \<Rightarrow> Done
            | Some r \<Rightarrow> atom (\<lambda>st. push_result (success i orderParams NewOrder)
                                      (push_orderValues r st)))
       | Inr True \<Rightarrow>
           seq (atom (idb_none (UpdateFillable u)))
               (atom (push_result (success i orderParams Reprice))))"

text \<open>
  The buy leg (lines 80-281) as a task. A buffered row holds the event's own
  \<open>feeBreakdown\<close> array, which is serialised by the bulk insert, after every event has
  finished: the row is pushed with \<open>fb\<close>, the final contents of that array.
\<close>

definition buyTask ::
  "'h env \<Rightarrow> OrderParams \<Rightarrow> NftPool \<Rightarrow> PoolPrice list \<Rightarrow> fees \<Rightarrow> fee_entry list \<Rightarrow> 'h task" where
  "buyTask env orderParams p priceList fs fb =
     (case priceList of
        [] \<Rightarrow> Done
      | q0 # _ \<Rightarrow>
          let i = getOrderId (keccak256 env) (pool orderParams) Buy None;
              prices = List.map_filter raw_sell priceList
          in (case sell q0 of
                Some v \<Rightarrow>
                  let feeBps = bps_sell q0;
                      fs' = (feeBps, snd fs @ [marketplace p feeBps])
                  in (case getRoyaltiesByTokenSet env (contractTokenSet (nft p)) ''default'' of
                        Inl e \<Rightarrow> Done
                      | Inr defaultRoyalties \<Rightarrow>
                     (case royaltiesOnTop defaultRoyalties (first_price prices) of
                        Inl e \<Rightarrow> Done
                      | Inr (missingRoyalties, missingRoyaltyAmount) \<Rightarrow>
                     (let normalizedValue = v - missingRoyaltyAmount in
                      case first_price prices of
                        None \<Rightarrow> Done
                      | Some pr \<Rightarrow>
                          upsertTask i orderParams
                            (map_option (\<lambda>r. r\<lparr>fee_breakdown := fb\<rparr>)
                               (newBuyRow env orderParams p i (currency q0) v prices fs'
                                  missingRoyalties normalizedValue pr))
                            (fillable_update i pr v (length prices) orderParams
                               (buy_sdkOrder env p pr prices) missingRoyalties normalizedValue fs'))))
              | None \<Rightarrow>
                  seq (atom (idb_none (UpdateNoBalance i (txTimestamp orderParams))))
                      (atom (push_result (success i orderParams Reprice)))))"

text \<open>One round of the loop over the token ids (lines 336-464), and the sell leg
  (lines 283-471).\<close>

definition tokenIdTask ::
  "'h env \<Rightarrow> OrderParams \<Rightarrow> NftPool \<Rightarrow> string \<Rightarrow> int \<Rightarrow> int list \<Rightarrow> fees \<Rightarrow>
   missing_royalty list \<Rightarrow> int \<Rightarrow> fee_entry list \<Rightarrow> string \<Rightarrow> 'h task" where
  "tokenIdTask env orderParams p cur v prices fs missingRoyalties normalizedValue fb tokenId =
     (let i = getOrderId (keccak256 env) (pool orderParams) Sell (Some tokenId) in
      case first_price prices of
        None \<Rightarrow> Done
      | Some pr \<Rightarrow>
          upsertTask i orderParams
            (map_option (\<lambda>r. r\<lparr>fee_breakdown := fb\<rparr>)
               (newSellRow env orderParams p cur v prices fs missingRoyalties normalizedValue
                  tokenId pr))
            (fillable_update i pr v 1 orderParams (sell_sdkOrder env p tokenId pr prices)
               missingRoyalties normalizedValue fs))"

definition sellTask ::
  "'h env \<Rightarrow> OrderParams \<Rightarrow> NftPool \<Rightarrow> PoolPrice list \<Rightarrow> fees \<Rightarrow> fee_entry list \<Rightarrow> 'h task" where
  "sellTask env orderParams p priceList fs fb =
     (case priceList of
        [] \<Rightarrow> Done
      | q0 # _ \<Rightarrow>
          let prices = List.map_filter raw_buy priceList
          in (case buy q0 of
                Some v \<Rightarrow>
                  let feeBps = bps_buy q0;
                      fs' = (feeBps, snd fs @ [marketplace p feeBps])
                  in (case sellPrepare env p v prices of
                        Inl e \<Rightarrow> Done
                      | Inr (missingRoyalties, normalizedValue, poolOwnedTokenIds) \<Rightarrow>
                          foldr (\<lambda>tokenId rest.
                                   seq (tokenIdTask env orderParams p (currency q0) v prices fs'
                                          missingRoyalties normalizedValue fb tokenId) rest)
                                poolOwnedTokenIds Done)
              | None \<Rightarrow> Done))"

text \<open>\<^verbatim>\<open>handleOrder\<close> (lines 47-478) as a task: the buy leg, then the sell leg.\<close>

definition eventTask :: "'h env \<Rightarrow> OrderParams \<Rightarrow> 'h task" where
  "eventTask env orderParams =
     (case getNftPoolDetails env (pool orderParams) of
        Inl e \<Rightarrow> Done
      | Inr None \<Rightarrow> Done
      | Inr (Some p) \<Rightarrow>
          if pool orderParams \<noteq> allowedPool then Done
          else (case priceLoop env (pool orderParams) 0 [] of
                  Inl e \<Rightarrow> Done
                | Inr priceList \<Rightarrow>
                    let fs1 = feesAfterBuy p priceList (0, []);
                        fs2 = feesAfterSell p priceList fs1
                    in seq (buyTask env orderParams p priceList (0, []) (snd fs2))
                           (sellTask env orderParams p priceList fs1 (snd fs2))))"

text \<open>
  \<open>allHandled env orderInfos os st\<close>: \<open>st\<close> is a state in which \<^verbatim>\<open>Promise.all\<close> of
  line 482 can resolve, when \<open>save\<close> was started on the table \<open>os\<close>. The bulk insert
  follows: \<open>flush st\<close> is then the final state of the call and \<open>results st\<close> the list
  it returns.
\<close>

definition allHandled :: "'h env \<Rightarrow> OrderParams list \<Rightarrow> 'h DbOrder list \<Rightarrow> 'h state \<Rightarrow> bool" where
  "allHandled env orderInfos os st \<longleftrightarrow> runs (map (eventTask env) orderInfos) (blank os) st"

text \<open>
  \<open>interleaved xss zs\<close>: the list \<open>zs\<close> is made of the elements of the lists \<open>xss\<close>,
  each of these lists keeping its own order.
\<close>

inductive interleaved :: "'a list list \<Rightarrow> 'a list \<Rightarrow> bool" where
  interleaved_Nil: "list_all (\<lambda>xs. xs = []) xss \<Longrightarrow> interleaved xss []"
| interleaved_Cons:
    "i < length xss \<Longrightarrow> xss ! i = x # xs \<Longrightarrow> interleaved (xss[i := xs]) zs \<Longrightarrow>
     interleaved xss (x # zs)"

text \<open>
  A task is isolated on the tables with the order ids of \<open>os\<close> when each of its steps,
  on any such table, adds what it adds on \<open>os\<close> itself, issues updates only, and
  continues in the same way.
\<close>

primrec task_isolated :: "'h DbOrder list \<Rightarrow> 'h task \<Rightarrow> bool" where
  "task_isolated os Done = True"
| "task_isolated os (Step u k) =
     ((\<forall>st. map order_id (orders st) = map order_id os \<longrightarrow>
          u st = extend st (u (blank os)) \<and> k st = k (blank os)) \<and>
      list_all is_update (statements (u (blank os))) \<and>
      task_isolated os (k (blank os)))"

section \<open>Example environments\<close>

text \<open>A concrete environment: three priced depth levels, a royalty of 500 bps, two
  token ids held by the pool, and a hash that returns its arguments.\<close>

definition demo_quote :: "nat \<Rightarrow> PoolPrice" where
  "demo_quote n =
     (if n \<le> 3
      then \<lparr>sell = Some (980 + 100 * int n), buy = Some (1200 + 100 * int n),
            raw_sell = Some (1000 + 100 * int n), raw_buy = Some (1180 + 100 * int n),
            bps_sell = 50, bps_buy = 30, currency = ''0xweth''\<rparr>
      else \<lparr>sell = None, buy = None, raw_sell = None, raw_buy = None,
            bps_sell = 50, bps_buy = 30, currency = ''0xweth''\<rparr>)"

definition demo_env :: "(string list \<times> string option list) env" where
  "demo_env =
     \<lparr>keccak256 = (\<lambda>ts vs. (ts, vs)),
      getNftPoolDetails = (\<lambda>a. Inr (Some \<lparr>address = a, nft = ''0xnft'', vaultId = 7\<rparr>)),
      getPoolPrice = (\<lambda>a n s. Inr (demo_quote n)),
      getRoyaltiesByTokenSet = (\<lambda>k m. Inr [\<lparr>roy_bps = 500, roy_recipient = ''0xartist''\<rparr>]),
      getNfts = (\<lambda>c a. Inr [''1'', ''2'']),
      generateSchemaHash = ''schema'',
      contractWide_save = (\<lambda>i h c. Inr [i]),
      singleToken_save = (\<lambda>i h c t. Inr [i]),
      sources_getOrInsert = (\<lambda>n. Inr (Some 1)),
      weth = ''0xweth''\<rparr>"

definition demo_event :: OrderParams where
  "demo_event = \<lparr>pool = allowedPool, txTimestamp = 1700000000, txHash = ''0xabc''\<rparr>"

definition demo_pool :: NftPool where
  "demo_pool = \<lparr>address = allowedPool, nft = ''0xnft'', vaultId = 7\<rparr>"

text \<open>The first two rows buffered for the example event on an empty table: the buy order
  and the sell order of token id 1.\<close>

definition demo_buy_row :: "(string list \<times> string option list) DbOrder" where
  "demo_buy_row = orderValues (fst (save demo_env [demo_event] [])) ! 0"

definition demo_sell_row :: "(string list \<times> string option list) DbOrder" where
  "demo_sell_row = orderValues (fst (save demo_env [demo_event] [])) ! 1"

text \<open>The same environment with an empty royalty schedule, and with a pool that quotes
  no price at any depth.\<close>

definition plain_env :: "(string list \<times> string option list) env" where
  "plain_env = demo_env\<lparr>getRoyaltiesByTokenSet := (\<lambda>k m. Inr [])\<rparr>"

definition dry_env :: "(string list \<times> string option list) env" where
  "dry_env = demo_env\<lparr>getPoolPrice := (\<lambda>a n s. Inr (demo_quote 4))\<rparr>"

text \<open>An environment in which the token-set registry rejects token id 1, and an event for
  a pool that is not the allowed one.\<close>

definition flaky_env :: "(string list \<times> string option list) env" where
  "flaky_env =
     demo_env\<lparr>singleToken_save :=
                (\<lambda>i h c t. if t = ''1'' then Inl (Error ''registry down'') else Inr [i])\<rparr>"

definition foreign_event :: OrderParams where
  "foreign_event = \<lparr>pool = ''0x00000000000000000000000000000000000000aa'',
                     txTimestamp = 1700000001, txHash = ''0xdef''\<rparr>"

text \<open>
  States and tables of the examples: the example event handled twice in one batch on an
  empty table; the table that a call for the example event leaves; the same event handled
  again on that table; and the sell identity of token id 1.
\<close>

definition demo_twice :: "(string list \<times> string option list) state" where
  "demo_twice = handleAll demo_env [demo_event, demo_event] []"

definition demo_table :: "(string list \<times> string option list) DbOrder list" where
  "demo_table = orders (flush (handleAll demo_env [demo_event] []))"

definition demo_again :: "(string list \<times> string option list) state" where
  "demo_again = handleAll demo_env [demo_event] demo_table"

definition demo_sell_id :: "string list \<times> string option list" where
  "demo_sell_id = getOrderId (keccak256 demo_env) (pool demo_event) Sell (Some ''1'')"

section \<open>Basic facts\<close>

lemma foldl_plus_sum_list: "foldl (+) a xs = a + sum_list (xs :: int list)"
  by (induction xs arbitrary: a) auto

lemma bn_div_nonneg: "0 \<le> a \<Longrightarrow> 0 < b \<Longrightarrow> bn_div a b = a div b"
  by (cases "a = 0") (auto simp: bn_div_def)

lemma royaltiesOnTop_not_above:
  "sum_list (map roy_bps rs) \<le> 0 \<Longrightarrow> royaltiesOnTop rs pr = Inr ([], 0)"
  by (simp add: royaltiesOnTop_def foldl_plus_sum_list)

lemma royaltiesOnTop_above:
  assumes "0 < sum_list (map roy_bps rs)"
    and "filter (\<lambda>r. roy_bps r \<noteq> 0 \<and> roy_recipient r \<noteq> AddressZero) rs = v # vs"
  shows "royaltiesOnTop rs (Some p) =
     Inr ([\<lparr>mr_bps = sum_list (map roy_bps rs),
            mr_amount = bn_div (p * sum_list (map roy_bps rs)) 10000,
            mr_recipient = roy_recipient v\<rparr>], bn_div (p * sum_list (map roy_bps rs)) 10000)"
  using assms by (simp add: royaltiesOnTop_def foldl_plus_sum_list Let_def)

lemma royaltiesOnTop_amount_nonneg:
  assumes "royaltiesOnTop rs (Some p) = Inr (mr, a)" and "0 \<le> p"
  shows "0 \<le> a"
  using assms
  by (auto simp: royaltiesOnTop_def foldl_plus_sum_list Let_def bn_div_nonneg
      pos_imp_zdiv_nonneg_iff split: if_splits list.splits)

section \<open>What a leg does when it succeeds\<close>

lemma sellItem_Inr:
  "sellItem env e p cur v prices fs mr nv t st = Inr st' \<longleftrightarrow>
     (\<exists>pr. first_price prices = Some pr \<and>
        ((redb_oneOrNone st (getOrderId (keccak256 env) (pool e) Sell (Some t)) = Inr False \<and>
          (\<exists>ts tss src.
              singleToken_save env (singleTokenSet (nft p) t) (generateSchemaHash env) (nft p) t
                = Inr (ts # tss) \<and> ts \<noteq> [] \<and>
              sources_getOrInsert env ''nftx.io'' = Inr src \<and>
              st' = push_result (success (getOrderId (keccak256 env) (pool e) Sell (Some t)) e NewOrder)
                      (push_orderValues
                         (sell_row env e p (getOrderId (keccak256 env) (pool e) Sell (Some t)) ts src
                            cur pr v fs (sell_sdkOrder env p t pr prices) mr nv) st))) \<or>
         (redb_oneOrNone st (getOrderId (keccak256 env) (pool e) Sell (Some t)) = Inr True \<and>
          st' = push_result (success (getOrderId (keccak256 env) (pool e) Sell (Some t)) e Reprice)
                  (idb_none (UpdateFillable
                     (fillable_update (getOrderId (keccak256 env) (pool e) Sell (Some t)) pr v 1 e
                        (sell_sdkOrder env p t pr prices) mr nv fs)) st))))"
  unfolding sellItem_def Let_def
  by (auto split: option.splits sum.splits bool.splits list.splits if_splits)

lemma buyFillable_Inr:
  "buyFillable env e p i cur v prices fs st = Inr st' \<longleftrightarrow>
     (\<exists>rs mr a pr. getRoyaltiesByTokenSet env (contractTokenSet (nft p)) ''default'' = Inr rs \<and>
        royaltiesOnTop rs (first_price prices) = Inr (mr, a) \<and>
        first_price prices = Some pr \<and>
        ((redb_oneOrNone st i = Inr False \<and>
          (\<exists>ts tss src.
              contractWide_save env (contractTokenSet (nft p)) (generateSchemaHash env) (nft p)
                = Inr (ts # tss) \<and> ts \<noteq> [] \<and>
              sources_getOrInsert env ''nftx.io'' = Inr src \<and>
              st' = push_result (success i e NewOrder)
                      (push_orderValues
                         (buy_row env e p i ts src cur pr v prices fs
                            (buy_sdkOrder env p pr prices) mr (v - a)) st))) \<or>
         (redb_oneOrNone st i = Inr True \<and>
          st' = push_result (success i e Reprice)
                  (idb_none (UpdateFillable
                     (fillable_update i pr v (length prices) e
                        (buy_sdkOrder env p pr prices) mr (v - a) fs)) st))))"
  unfolding buyFillable_def Let_def
  by (auto split: option.splits sum.splits bool.splits list.splits if_splits)

lemma sellPrepare_Inr:
  "sellPrepare env p v prices = Inr (mr, nv, ids) \<longleftrightarrow>
     (\<exists>rs a. getRoyaltiesByTokenSet env (contractTokenSet (nft p)) ''default'' = Inr rs \<and>
        royaltiesOnTop rs (first_price prices) = Inr (mr, a) \<and> nv = v + a \<and>
        getNfts env (nft p) (address p) = Inr ids)"
  unfolding sellPrepare_def Let_def
  by (auto split: sum.splits)

section \<open>Every buffered row and every update carries the royalties of its collection\<close>

lemma rowOK_fee_breakdown [simp]: "rowOK env (r\<lparr>fee_breakdown := fb\<rparr>) = rowOK env r"
  by (simp add: rowOK_def)

lemma stOK_push_result [simp]: "stOK env (push_result r st) = stOK env st"
  by (simp add: stOK_def push_result_def)

lemma stOK_push_orderValues [simp]:
  "stOK env (push_orderValues r st) \<longleftrightarrow> stOK env st \<and> rowOK env r"
  by (auto simp: stOK_def push_orderValues_def)

lemma stOK_idb_none_fillable [simp]:
  "stOK env (idb_none (UpdateFillable u) st) \<longleftrightarrow> stOK env st \<and> updOK env u"
  by (auto simp: stOK_def idb_none_def)

lemma stOK_idb_none_other [simp]:
  "stOK env (idb_none (UpdateNoBalance i ts) st) = stOK env st"
  "stOK env (idb_none (InsertIgnore rows) st) = stOK env st"
  by (auto simp: stOK_def idb_none_def)

lemma sellItem_stOK:
  assumes "sellItem env e p cur v prices fs mr nv t st = Inr st'" and "stOK env st"
    and "getRoyaltiesByTokenSet env (contractTokenSet (nft p)) ''default'' = Inr rs"
    and "royaltiesOnTop rs (first_price prices) = Inr (mr, a)" and "nv = v + a"
  shows "stOK env st'"
  using assms unfolding sellItem_Inr
  by (auto simp: rowOK_def updOK_def sell_row_def fillable_update_def sell_sdkOrder_def)

lemma handleTokenId_stOK:
  assumes "stOK env st"
    and "getRoyaltiesByTokenSet env (contractTokenSet (nft p)) ''default'' = Inr rs"
    and "royaltiesOnTop rs (first_price prices) = Inr (mr, a)" and "nv = v + a"
  shows "stOK env (handleTokenId env e p cur v prices fs mr nv st t)"
  using assms sellItem_stOK [of env e p cur v prices fs mr nv t st]
  by (auto simp: handleTokenId_def split: sum.splits)

lemma foldl_handleTokenId_stOK:
  assumes "stOK env st"
    and "getRoyaltiesByTokenSet env (contractTokenSet (nft p)) ''default'' = Inr rs"
    and "royaltiesOnTop rs (first_price prices) = Inr (mr, a)" and "nv = v + a"
  shows "stOK env (foldl (handleTokenId env e p cur v prices fs mr nv) st ts)"
  using assms(1)
proof (induction ts arbitrary: st)
  case Nil
  then show ?case by simp
next
  case (Cons t ts)
  show ?case
    using Cons.IH [OF handleTokenId_stOK [OF Cons.prems assms(2-4)]] by simp
qed

lemma handleSellOrders_stOK:
  assumes "stOK env st"
  shows "stOK env (snd (handleSellOrders env e p pl fs st))"
  using assms
  by (auto simp: handleSellOrders_def Let_def sellPrepare_Inr
      intro: foldl_handleTokenId_stOK split: list.splits option.splits sum.splits)

lemma buyFillable_stOK:
  assumes "buyFillable env e p i cur v prices fs st = Inr st'" and "stOK env st"
  shows "stOK env st'"
  using assms unfolding buyFillable_Inr
  by (auto simp: rowOK_def updOK_def buy_row_def fillable_update_def buy_sdkOrder_def)

lemma handleBuyOrders_stOK:
  assumes "stOK env st"
  shows "stOK env (snd (handleBuyOrders env e p pl fs st))"
  using assms
  by (auto simp: handleBuyOrders_def Let_def
      intro: buyFillable_stOK split: list.splits option.splits sum.splits)

lemma shareFeeBreakdown_stOK:
  assumes "stOK env st"
  shows "stOK env (shareFeeBreakdown n fb st)"
  using assms
  by (auto simp: stOK_def shareFeeBreakdown_def dest: in_set_takeD in_set_dropD)

lemma handleOrder_stOK:
  assumes "stOK env st"
  shows "stOK env (handleOrder env st e)"
proof -
  have "stOK env (shareFeeBreakdown n fb
          (snd (handleSellOrders env e p pl (fst (handleBuyOrders env e p pl fs st))
             (snd (handleBuyOrders env e p pl fs st)))))" for n fb p pl fs
    by (intro shareFeeBreakdown_stOK handleSellOrders_stOK handleBuyOrders_stOK assms)
  then show ?thesis
    using assms
    by (auto simp: handleOrder_def Let_def split_beta split: sum.splits option.splits)
qed

lemma foldl_handleOrder_stOK:
  "stOK env st \<Longrightarrow> stOK env (foldl (handleOrder env) st es)"
  by (induction es arbitrary: st) (auto intro: handleOrder_stOK)

lemma save_stOK: "stOK env (fst (save env es os))"
proof -
  have "stOK env (blank os)"
    by (simp add: stOK_def blank_def)
  then show ?thesis
    by (simp add: save_def flush_def handleAll_def Let_def foldl_handleOrder_stOK)
qed

section \<open>Steps that add to the state and read only the order ids\<close>
lemma order_id_set_fillable [simp]: "order_id (set_fillable u r) = order_id r"
  by (simp add: set_fillable_def)

lemma order_id_set_no_balance [simp]: "order_id (set_no_balance ts r) = order_id r"
  by (simp add: set_no_balance_def)

lemma exec_update_ids: "is_update s \<Longrightarrow> map order_id (exec s os) = map order_id os"
  by (cases s) (auto simp: comp_def)

lemma foldl_exec_ids:
  "list_all is_update ss \<Longrightarrow> map order_id (foldl (\<lambda>os s. exec s os) os ss) = map order_id os"
  by (induction ss arbitrary: os) (auto simp: exec_update_ids)

lemma extend_simps [simp]:
  "results (extend st d) = results st @ results d"
  "orderValues (extend st d) = orderValues st @ orderValues d"
  "statements (extend st d) = statements st @ statements d"
  "orders (extend st d) = foldl (\<lambda>os s. exec s os) (orders st) (statements d)"
  by (simp_all add: extend_def)

lemma blank_simps [simp]:
  "results (blank os) = []" "orderValues (blank os) = []" "statements (blank os) = []"
  "orders (blank os) = os"
  by (simp_all add: blank_def)

lemma extend_blank [simp]: "extend st (blank os) = st"
  by (simp add: extend_def)

lemma extend_assoc:
  "extend (extend st d) d' = extend st (extend d d')"
  by (simp add: extend_def)

lemma isolatedD:
  fixes os :: "'h DbOrder list"
  assumes "isolated f" and "map order_id (orders st) = map order_id os"
  shows "f st = extend st (f (blank os))" and "list_all is_update (statements (f (blank os)))"
  using assms unfolding isolated_def by blast+

lemma isolated_ids:
  assumes "isolated f"
  shows "map order_id (orders (f st)) = map order_id (orders st)"
proof -
  have "f st = extend st (f (blank (orders st)))"
    and "list_all is_update (statements (f (blank (orders st))))"
    using isolatedD [OF assms, of st "orders st"] by auto
  then show ?thesis
    by (metis extend_simps(4) foldl_exec_ids)
qed

lemma isolated_comp:
  assumes "isolated f" and "isolated g"
  shows "isolated (\<lambda>st. g (f st))"
  unfolding isolated_def
proof (intro allI impI conjI)
  fix st :: "'a state" and os :: "'a DbOrder list"
  assume ids: "map order_id (orders st) = map order_id os"
  have f1: "f st = extend st (f (blank os))"
    and fu: "list_all is_update (statements (f (blank os)))"
    using isolatedD [OF assms(1) ids] by auto
  have idb: "map order_id (orders (f (blank os))) = map order_id os"
    using isolated_ids [OF assms(1), of "blank os"] by simp
  have ids': "map order_id (orders (f st)) = map order_id os"
    using isolated_ids [OF assms(1), of st] ids by simp
  have g1: "g (f st) = extend (f st) (g (blank os))"
    and gu: "list_all is_update (statements (g (blank os)))"
    using isolatedD [OF assms(2) ids'] by auto
  have g2: "g (f (blank os)) = extend (f (blank os)) (g (blank os))"
    using isolatedD [OF assms(2) idb] by auto
  show "g (f st) = extend st (g (f (blank os)))"
    by (simp only: g1 g2 extend_assoc [symmetric] f1 [symmetric])
  show "list_all is_update (statements (g (f (blank os))))"
    using fu gu by (simp add: g2)
qed

lemma isolated_id: "isolated (\<lambda>st. st)"
  by (simp add: isolated_def)

lemma isolated_push_result: "isolated (push_result r)"
  by (simp add: isolated_def push_result_def extend_def blank_def)

lemma isolated_push_orderValues: "isolated (push_orderValues v)"
  by (simp add: isolated_def push_orderValues_def extend_def blank_def)

lemma isolated_idb_none: "is_update s \<Longrightarrow> isolated (idb_none s)"
  by (simp add: isolated_def idb_none_def extend_def blank_def)

lemma isolated_foldl:
  assumes "\<And>t. isolated (\<lambda>st. h st t)"
  shows "isolated (\<lambda>st. foldl h st ts)"
proof (induction ts rule: rev_induct)
  case Nil
  show ?case by (simp add: isolated_id)
next
  case (snoc t ts)
  show ?case
    using isolated_comp [OF snoc.IH assms [of t]] by simp
qed

lemma redb_oneOrNone_ids:
  fixes st st' :: "'a state"
  assumes "map order_id (orders st) = map order_id (orders st')"
  shows "redb_oneOrNone st i = redb_oneOrNone st' i"
proof -
  have "map order_id (filter (\<lambda>r. order_id r = i) xs) =
        filter (\<lambda>x. x = i) (map order_id xs)" for xs :: "'a DbOrder list"
    by (simp add: filter_map comp_def)
  then have "map order_id (filter (\<lambda>r. order_id r = i) (orders st)) =
        map order_id (filter (\<lambda>r. order_id r = i) (orders st'))"
    using assms by simp
  then have "length (filter (\<lambda>r. order_id r = i) (orders st)) =
             length (filter (\<lambda>r. order_id r = i) (orders st'))"
    by (metis length_map)
  then show ?thesis
    unfolding redb_oneOrNone_def
    by (cases "filter (\<lambda>r. order_id r = i) (orders st)"; cases "filter (\<lambda>r. order_id r = i) (orders st')")
       (auto split: list.splits)
qed

lemma isolated_cases:
  fixes f g h :: "'h state \<Rightarrow> 'h state"
  assumes "isolated f" and "isolated g" and "isolated h"
  shows "isolated (\<lambda>st. case redb_oneOrNone st i of
                          Inl e \<Rightarrow> f st | Inr False \<Rightarrow> g st | Inr True \<Rightarrow> h st)"
  unfolding isolated_def
proof (intro allI impI)
  fix st :: "'h state" and os :: "'h DbOrder list"
  assume ids: "map order_id (orders st) = map order_id os"
  have r: "redb_oneOrNone st i = redb_oneOrNone (blank os) i"
    by (rule redb_oneOrNone_ids) (simp add: ids)
  show "(case redb_oneOrNone st i of Inl e \<Rightarrow> f st | Inr False \<Rightarrow> g st | Inr True \<Rightarrow> h st) =
        extend st (case redb_oneOrNone (blank os) i of
                     Inl e \<Rightarrow> f (blank os) | Inr False \<Rightarrow> g (blank os) | Inr True \<Rightarrow> h (blank os)) \<and>
        list_all is_update (statements (case redb_oneOrNone (blank os) i of
                     Inl e \<Rightarrow> f (blank os) | Inr False \<Rightarrow> g (blank os) | Inr True \<Rightarrow> h (blank os)))"
    unfolding r
    using isolatedD [OF assms(1) ids] isolatedD [OF assms(2) ids] isolatedD [OF assms(3) ids]
    by (auto split: sum.splits bool.splits)
qed

lemma handleTokenId_alt:
  "handleTokenId env e p cur v prices fs mr nv st t =
     (case first_price prices of
        None \<Rightarrow> st
      | Some pr \<Rightarrow>
          (case redb_oneOrNone st (getOrderId (keccak256 env) (pool e) Sell (Some t)) of
             Inl err \<Rightarrow> st
           | Inr False \<Rightarrow>
               (case singleToken_save env (singleTokenSet (nft p) t) (generateSchemaHash env)
                       (nft p) t of
                  Inr (ts # tss) \<Rightarrow>
                    if ts = [] then st
                    else (case sources_getOrInsert env ''nftx.io'' of
                            Inl err \<Rightarrow> st
                          | Inr src \<Rightarrow>
                              push_result
                                (success (getOrderId (keccak256 env) (pool e) Sell (Some t)) e NewOrder)
                                (push_orderValues
                                   (sell_row env e p (getOrderId (keccak256 env) (pool e) Sell (Some t))
                                      ts src cur pr v fs (sell_sdkOrder env p t pr prices) mr nv) st))
                | _ \<Rightarrow> st)
           | Inr True \<Rightarrow>
               push_result (success (getOrderId (keccak256 env) (pool e) Sell (Some t)) e Reprice)
                 (idb_none (UpdateFillable
                    (fillable_update (getOrderId (keccak256 env) (pool e) Sell (Some t)) pr v 1 e
                       (sell_sdkOrder env p t pr prices) mr nv fs)) st)))"
  by (auto simp: handleTokenId_def sellItem_def Let_def
      split: option.splits sum.splits bool.splits list.splits)

lemma isolated_sum:
  assumes "\<And>a. isolated (f a)" and "\<And>b. isolated (g b)"
  shows "isolated (\<lambda>st. case x of Inl a \<Rightarrow> f a st | Inr b \<Rightarrow> g b st)"
  using assms by (cases x) auto

lemma isolated_option:
  assumes "isolated f" and "\<And>b. isolated (g b)"
  shows "isolated (\<lambda>st. case x of None \<Rightarrow> f st | Some b \<Rightarrow> g b st)"
  using assms by (cases x) auto

lemma isolated_list:
  assumes "isolated f" and "\<And>y ys. isolated (g y ys)"
  shows "isolated (\<lambda>st. case x of [] \<Rightarrow> f st | y # ys \<Rightarrow> g y ys st)"
  using assms by (cases x) auto

lemma isolated_if:
  assumes "isolated f" and "isolated g"
  shows "isolated (\<lambda>st. if b then f st else g st)"
  using assms by (cases b) auto

lemma isolated_push_new:
  "isolated (\<lambda>st. push_result r (push_orderValues v st))"
  by (rule isolated_comp [OF isolated_push_orderValues isolated_push_result])

lemma isolated_push_update:
  "is_update s \<Longrightarrow> isolated (\<lambda>st. push_result r (idb_none s st))"
  by (rule isolated_comp [OF isolated_idb_none isolated_push_result])

lemma isolated_handleTokenId:
  "isolated (\<lambda>st. handleTokenId env e p cur v prices fs mr nv st t)"
  unfolding handleTokenId_alt
  by (intro isolated_option isolated_cases isolated_sum isolated_list isolated_if isolated_id
      isolated_push_new isolated_push_update) simp

lemma isolated_prod:
  assumes "\<And>a b. isolated (f a b)"
  shows "isolated (\<lambda>st. case x of (a, b) \<Rightarrow> f a b st)"
  using assms by (cases x) auto

lemma fst_handleBuyOrders: "fst (handleBuyOrders env e p pl fs st) = feesAfterBuy p pl fs"
  by (simp add: handleBuyOrders_def feesAfterBuy_def Let_def split: list.splits option.splits)

lemma fst_handleSellOrders: "fst (handleSellOrders env e p pl fs st) = feesAfterSell p pl fs"
  by (simp add: handleSellOrders_def feesAfterSell_def Let_def split: list.splits option.splits)

lemma snd_handleSellOrders:
  "snd (handleSellOrders env e p pl fs st) =
     (case pl of
        [] \<Rightarrow> st
      | q0 # qs \<Rightarrow>
          (case buy q0 of
             None \<Rightarrow> st
           | Some v \<Rightarrow>
               (case sellPrepare env p v (List.map_filter raw_buy pl) of
                  Inl err \<Rightarrow> st
                | Inr x \<Rightarrow>
                    (case x of (mr, y) \<Rightarrow> (case y of (nv, ids) \<Rightarrow>
                       foldl (handleTokenId env e p (currency q0) v (List.map_filter raw_buy pl)
                                (feesAfterSell p pl fs) mr nv) st ids)))))"
  by (simp add: handleSellOrders_def feesAfterSell_def Let_def
      split: list.splits option.splits sum.splits prod.splits)

lemma isolated_handleSellOrders:
  "isolated (\<lambda>st. snd (handleSellOrders env e p pl fs st))"
  unfolding snd_handleSellOrders
  by (intro isolated_option isolated_sum isolated_list isolated_prod isolated_id isolated_foldl
      isolated_handleTokenId)

lemma buyFillable_alt:
  "(case buyFillable env e p i cur v prices fs st of Inl err \<Rightarrow> st | Inr st' \<Rightarrow> st') =
     (case getRoyaltiesByTokenSet env (contractTokenSet (nft p)) ''default'' of
        Inl err \<Rightarrow> st
      | Inr rs \<Rightarrow>
     (case royaltiesOnTop rs (first_price prices) of
        Inl err \<Rightarrow> st
      | Inr x \<Rightarrow>
     (case x of (mr, a) \<Rightarrow>
     (case first_price prices of
        None \<Rightarrow> st
      | Some pr \<Rightarrow>
     (case redb_oneOrNone st i of
        Inl err \<Rightarrow> st
      | Inr False \<Rightarrow>
          (case contractWide_save env (contractTokenSet (nft p)) (generateSchemaHash env) (nft p) of
             Inl err \<Rightarrow> st
           | Inr l \<Rightarrow>
               (case l of
                  [] \<Rightarrow> st
                | ts # tss \<Rightarrow>
                    if ts = [] then st
                    else (case sources_getOrInsert env ''nftx.io'' of
                            Inl err \<Rightarrow> st
                          | Inr src \<Rightarrow>
                              push_result (success i e NewOrder)
                                (push_orderValues
                                   (buy_row env e p i ts src cur pr v prices fs
                                      (buy_sdkOrder env p pr prices) mr (v - a)) st))))
      | Inr True \<Rightarrow>
          push_result (success i e Reprice)
            (idb_none (UpdateFillable
               (fillable_update i pr v (length prices) e (buy_sdkOrder env p pr prices) mr
                  (v - a) fs)) st))))))"
  by (auto simp: buyFillable_def Let_def
      split: option.splits sum.splits bool.splits list.splits)

lemma snd_handleBuyOrders:
  "snd (handleBuyOrders env e p pl fs st) =
     (case pl of
        [] \<Rightarrow> st
      | q0 # qs \<Rightarrow>
          (case sell q0 of
             None \<Rightarrow>
               push_result (success (getOrderId (keccak256 env) (pool e) Buy None) e Reprice)
                 (idb_none (UpdateNoBalance (getOrderId (keccak256 env) (pool e) Buy None)
                    (txTimestamp e)) st)
           | Some v \<Rightarrow>
               (case buyFillable env e p (getOrderId (keccak256 env) (pool e) Buy None)
                       (currency q0) v (List.map_filter raw_sell pl) (feesAfterBuy p pl fs) st of
                  Inl err \<Rightarrow> st
                | Inr st' \<Rightarrow> st')))"
  by (simp add: handleBuyOrders_def feesAfterBuy_def Let_def
      split: list.splits option.splits sum.splits)

lemma isolated_handleBuyOrders:
  "isolated (\<lambda>st. snd (handleBuyOrders env e p pl fs st))"
  unfolding snd_handleBuyOrders buyFillable_alt
  by (intro isolated_option isolated_cases isolated_sum isolated_list isolated_if isolated_id
      isolated_prod isolated_push_new isolated_push_update) simp_all

lemma isolated_shareFeeBreakdown:
  assumes "isolated g"
  shows "isolated (\<lambda>st. shareFeeBreakdown (length (orderValues st)) fb (g st))"
  unfolding isolated_def
proof (intro allI impI)
  fix st :: "'a state" and os :: "'a DbOrder list"
  assume ids: "map order_id (orders st) = map order_id os"
  have g1: "g st = extend st (g (blank os))"
    and gu: "list_all is_update (statements (g (blank os)))"
    using isolatedD [OF assms ids] by auto
  show "shareFeeBreakdown (length (orderValues st)) fb (g st) =
        extend st (shareFeeBreakdown (length (orderValues (blank os))) fb (g (blank os))) \<and>
        list_all is_update
          (statements (shareFeeBreakdown (length (orderValues (blank os))) fb (g (blank os))))"
    using gu by (simp add: g1 shareFeeBreakdown_def extend_def)
qed

lemma handleOrder_alt:
  "handleOrder env st e =
     (case getNftPoolDetails env (pool e) of
        Inl err \<Rightarrow> st
      | Inr x \<Rightarrow>
          (case x of
             None \<Rightarrow> st
           | Some p \<Rightarrow>
               if pool e \<noteq> allowedPool then st
               else (case priceLoop env (pool e) 0 [] of
                       Inl err \<Rightarrow> st
                     | Inr pl \<Rightarrow>
                         shareFeeBreakdown (length (orderValues st))
                           (snd (feesAfterSell p pl (feesAfterBuy p pl (0, []))))
                           (snd (handleSellOrders env e p pl (feesAfterBuy p pl (0, []))
                                  (snd (handleBuyOrders env e p pl (0, []) st)))))))"
  by (simp add: handleOrder_def Let_def split_beta fst_handleBuyOrders fst_handleSellOrders
      split: sum.splits option.splits)

lemma isolated_handleOrder: "isolated (\<lambda>st. handleOrder env st e)"
  unfolding handleOrder_alt
  by (intro isolated_option isolated_sum isolated_if isolated_id isolated_shareFeeBreakdown
      isolated_comp [OF isolated_handleBuyOrders isolated_handleSellOrders])

lemma isolated_events: "isolated (\<lambda>st. foldl (handleOrder env) st es)"
  by (rule isolated_foldl) (rule isolated_handleOrder)

section \<open>Folds of isolated steps, and the bulk insert\<close>

lemma foldl_isolated:
  fixes h :: "'h state \<Rightarrow> 'b \<Rightarrow> 'h state" and os :: "'h DbOrder list"
  assumes iso: "\<And>t. isolated (\<lambda>st. h st t)"
    and ids: "map order_id (orders st) = map order_id os"
  shows "results (foldl h st ts) = results st @ concat (map (\<lambda>t. results (h (blank os) t)) ts)"
    and "orderValues (foldl h st ts) =
           orderValues st @ concat (map (\<lambda>t. orderValues (h (blank os) t)) ts)"
    and "statements (foldl h st ts) =
           statements st @ concat (map (\<lambda>t. statements (h (blank os) t)) ts)"
    and "map order_id (orders (foldl h st ts)) = map order_id os"
proof -
  have "results (foldl h st ts) = results st @ concat (map (\<lambda>t. results (h (blank os) t)) ts) \<and>
        orderValues (foldl h st ts) =
           orderValues st @ concat (map (\<lambda>t. orderValues (h (blank os) t)) ts) \<and>
        statements (foldl h st ts) =
           statements st @ concat (map (\<lambda>t. statements (h (blank os) t)) ts) \<and>
        map order_id (orders (foldl h st ts)) = map order_id os"
    using ids
  proof (induction ts arbitrary: st)
    case Nil
    then show ?case by simp
  next
    case (Cons t ts)
    have step: "h st t = extend st (h (blank os) t)"
      using isolatedD(1) [OF iso Cons.prems] .
    have "map order_id (orders (h st t)) = map order_id os"
      using isolated_ids [OF iso, of st t] Cons.prems by simp
    from Cons.IH [OF this] show ?case
      by (simp add: step)
  qed
  then show "results (foldl h st ts) = results st @ concat (map (\<lambda>t. results (h (blank os) t)) ts)"
    and "orderValues (foldl h st ts) =
           orderValues st @ concat (map (\<lambda>t. orderValues (h (blank os) t)) ts)"
    and "statements (foldl h st ts) =
           statements st @ concat (map (\<lambda>t. statements (h (blank os) t)) ts)"
    and "map order_id (orders (foldl h st ts)) = map order_id os"
    by blast+
qed

lemma isolated_orders:
  assumes "isolated f"
  shows "orders (f (blank os)) = foldl (\<lambda>os s. exec s os) os (statements (f (blank os)))"
  using isolatedD(1) [OF assms, of "blank os" os] 
  by (metis blank_simps(4) extend_simps(4))

lemma find_append:
  "find P (xs @ ys) = (case find P xs of None \<Rightarrow> find P ys | Some x \<Rightarrow> Some x)"
  by (induction xs) auto

lemma find_insert_ignore:
  "find (\<lambda>r. order_id r = i) (insert_ignore os r) = find (\<lambda>r. order_id r = i) (os @ [r])"
proof (cases "order_id r \<in> set (map order_id os)")
  case True
  then obtain r' where "r' \<in> set os" "order_id r' = order_id r" by auto
  then have "find (\<lambda>x. order_id x = order_id r) os \<noteq> None"
    by (auto simp: find_None_iff)
  then show ?thesis
    using True by (auto simp: insert_ignore_def find_append split: option.splits)
next
  case False
  then show ?thesis by (simp add: insert_ignore_def)
qed

lemma find_foldl_insert_ignore:
  "find (\<lambda>r. order_id r = i) (foldl insert_ignore os rows) =
   find (\<lambda>r. order_id r = i) (os @ rows)"
proof (induction rows arbitrary: os)
  case Nil
  then show ?case by simp
next
  case (Cons r rows)
  show ?case
    using Cons.IH [of "insert_ignore os r"] find_insert_ignore [of i os r]
    by (simp add: find_append split: option.splits)
qed

lemma insert_ignore_prefix: "\<exists>ys. foldl insert_ignore os rows = os @ ys"
proof (induction rows arbitrary: os)
  case Nil
  then show ?case by simp
next
  case (Cons r rows)
  obtain ys where ys: "foldl insert_ignore (insert_ignore os r) rows = insert_ignore os r @ ys"
    using Cons.IH by blast
  show ?case
  proof (cases "order_id r \<in> set (map order_id os)")
    case True
    then have "insert_ignore os r = os" by (simp add: insert_ignore_def)
    with ys show ?thesis by simp
  next
    case False
    then have "insert_ignore os r = os @ [r]" by (simp add: insert_ignore_def)
    with ys show ?thesis by simp
  qed
qed

lemma distinct_insert_ignore:
  "distinct (map order_id os) \<Longrightarrow> distinct (map order_id (foldl insert_ignore os rows))"
  by (induction rows arbitrary: os) (auto simp: insert_ignore_def)

lemma set_ids_insert_ignore:
  "set (map order_id (foldl insert_ignore os rows)) = set (map order_id os) \<union> set (map order_id rows)"
  by (induction rows arbitrary: os) (auto simp: insert_ignore_def)

section \<open>Results, buffered rows and the table\<close>
lemma redb_oneOrNone_False:
  "redb_oneOrNone st i = Inr False \<longleftrightarrow> i \<notin> set (map order_id (orders st))"
proof -
  have "filter (\<lambda>r. order_id r = i) (orders st) = [] \<longleftrightarrow> i \<notin> set (map order_id (orders st))"
    by (auto simp: filter_empty_conv)
  then show ?thesis
    by (auto simp: redb_oneOrNone_def split: list.splits)
qed

lemma tagged_reprice:
  assumes "tagged st" and "is_update s" and "targets s = [i]"
  shows "tagged (push_result (success i e Reprice) (idb_none s st))"
  using assms exec_update_ids [of s "orders st"]
  by (simp add: tagged_def push_result_def idb_none_def success_def)

lemma tagged_new:
  assumes "tagged st" and "order_id r = i" and "i \<notin> set (map order_id (orders st))"
  shows "tagged (push_result (success i e NewOrder) (push_orderValues r st))"
  using assms
  by (simp add: tagged_def push_result_def push_orderValues_def success_def)

lemma order_id_sell_row [simp]:
  "order_id (sell_row env e p i ts src cur pr v fs sdk mr nv) = i"
  by (simp add: sell_row_def)

lemma order_id_buy_row [simp]:
  "order_id (buy_row env e p i ts src cur pr v prices fs sdk mr nv) = i"
  by (simp add: buy_row_def)

lemma sellItem_tagged:
  assumes "sellItem env e p cur v prices fs mr nv t st = Inr st'" and "tagged st"
  shows "tagged st'"
  using assms unfolding sellItem_Inr
  by (auto simp: redb_oneOrNone_False fillable_update_def intro!: tagged_reprice tagged_new)

lemma handleTokenId_tagged:
  assumes "tagged st"
  shows "tagged (handleTokenId env e p cur v prices fs mr nv st t)"
  using assms sellItem_tagged [of env e p cur v prices fs mr nv t st]
  by (auto simp: handleTokenId_def split: sum.splits)

lemma foldl_handleTokenId_tagged:
  "tagged st \<Longrightarrow> tagged (foldl (handleTokenId env e p cur v prices fs mr nv) st ts)"
  by (induction ts arbitrary: st) (auto intro: handleTokenId_tagged)

lemma handleSellOrders_tagged:
  assumes "tagged st"
  shows "tagged (snd (handleSellOrders env e p pl fs st))"
  using assms
  by (auto simp: handleSellOrders_def Let_def
      intro: foldl_handleTokenId_tagged split: list.splits option.splits sum.splits)

lemma buyFillable_tagged:
  assumes "buyFillable env e p i cur v prices fs st = Inr st'" and "tagged st"
  shows "tagged st'"
  using assms unfolding buyFillable_Inr
  by (auto simp: redb_oneOrNone_False fillable_update_def intro!: tagged_reprice tagged_new)

lemma handleBuyOrders_tagged:
  assumes "tagged st"
  shows "tagged (snd (handleBuyOrders env e p pl fs st))"
  using assms
  by (auto simp: handleBuyOrders_def Let_def
      intro: buyFillable_tagged intro!: tagged_reprice split: list.splits option.splits sum.splits)

lemma map_order_id_share:
  "map order_id (take n xs @ map (\<lambda>r. r\<lparr>fee_breakdown := fb\<rparr>) (drop n xs)) = map order_id xs"
proof -
  have "map order_id (take n xs @ map (\<lambda>r. r\<lparr>fee_breakdown := fb\<rparr>) (drop n xs)) =
        map order_id (take n xs) @ map order_id (drop n xs)"
    by simp
  also have "\<dots> = map order_id (take n xs @ drop n xs)"
    by (simp only: map_append)
  finally show ?thesis by simp
qed

lemma shareFeeBreakdown_tagged:
  assumes "tagged st"
  shows "tagged (shareFeeBreakdown n fb st)"
proof -
  have ids: "map order_id (orderValues (shareFeeBreakdown n fb st)) = map order_id (orderValues st)"
    using map_order_id_share [of n "orderValues st" fb] by (simp add: shareFeeBreakdown_def)
  have same: "results (shareFeeBreakdown n fb st) = results st"
    "orders (shareFeeBreakdown n fb st) = orders st"
    "statements (shareFeeBreakdown n fb st) = statements st"
    by (simp_all add: shareFeeBreakdown_def)
  show ?thesis
    using assms unfolding tagged_def ids same by simp
qed

lemma handleOrder_tagged:
  assumes "tagged st"
  shows "tagged (handleOrder env st e)"
  using assms unfolding handleOrder_alt
  by (auto intro!: shareFeeBreakdown_tagged handleSellOrders_tagged handleBuyOrders_tagged
      split: sum.splits option.splits)

lemma foldl_handleOrder_tagged:
  "tagged st \<Longrightarrow> tagged (foldl (handleOrder env) st es)"
  by (induction es arbitrary: st) (auto intro: handleOrder_tagged)

lemma events_tagged: "tagged (foldl (handleOrder env) (blank os) es)"
  by (rule foldl_handleOrder_tagged) (simp add: tagged_def)

section \<open>The state when all events are handled, and the flush\<close>

lemma handleAll_isolated:
  "list_all is_update (statements (handleAll env es os))"
  "orders (handleAll env es os) =
     foldl (\<lambda>os s. exec s os) os (statements (handleAll env es os))"
  "map order_id (orders (handleAll env es os)) = map order_id os"
proof -
  have iso: "isolated (\<lambda>st. foldl (handleOrder env) st es)"
    by (rule isolated_events)
  show "list_all is_update (statements (handleAll env es os))"
    using isolatedD(2) [OF iso, of "blank os" os] by (simp add: handleAll_def)
  show "orders (handleAll env es os) =
     foldl (\<lambda>os s. exec s os) os (statements (handleAll env es os))"
    using isolated_orders [OF iso, of os] by (simp add: handleAll_def)
  show "map order_id (orders (handleAll env es os)) = map order_id os"
    using isolated_ids [OF iso, of "blank os"] by (simp add: handleAll_def)
qed

lemma flush_simps:
  "results (flush st) = results st"
  "orderValues (flush st) = orderValues st"
  "orders (flush st) = foldl insert_ignore (orders st) (orderValues st)"
  "statements (flush st) =
     statements st @ (if orderValues st = [] then [] else [InsertIgnore (orderValues st)])"
  by (simp_all add: flush_def idb_none_def)

lemma fst_save: "fst (save env es os) = flush (handleAll env es os)"
  by (simp add: save_def Let_def)

section \<open>Where the rows and updates of an event come from\<close>

lemma foldl_isolated_blank:
  fixes h :: "'h state \<Rightarrow> 'b \<Rightarrow> 'h state" and os :: "'h DbOrder list"
  assumes "\<And>t. isolated (\<lambda>st. h st t)"
  shows "results (foldl h (blank os) ts) = concat (map (\<lambda>t. results (h (blank os) t)) ts)"
    and "orderValues (foldl h (blank os) ts) =
           concat (map (\<lambda>t. orderValues (h (blank os) t)) ts)"
    and "statements (foldl h (blank os) ts) =
           concat (map (\<lambda>t. statements (h (blank os) t)) ts)"
  using foldl_isolated(1-3) [of h "blank os" os ts, OF assms] by simp_all

lemma handleOrder_legs:
  assumes "getNftPoolDetails env (pool e) = Inr (Some p)" and "pool e = allowedPool"
    and "priceLoop env (pool e) 0 [] = Inr pl"
  shows "handleOrder env st e =
     shareFeeBreakdown (length (orderValues st))
       (snd (feesAfterSell p pl (feesAfterBuy p pl (0, []))))
       (extend (extend st (snd (handleBuyOrders env e p pl (0, []) (blank (orders st)))))
          (snd (handleSellOrders env e p pl (feesAfterBuy p pl (0, [])) (blank (orders st)))))"
proof -
  let ?B = "\<lambda>st. snd (handleBuyOrders env e p pl (0, []) st)"
  let ?S = "\<lambda>st. snd (handleSellOrders env e p pl (feesAfterBuy p pl (0, [])) st)"
  have b: "?B st = extend st (?B (blank (orders st)))"
    using isolatedD(1) [OF isolated_handleBuyOrders, of st "orders st"] by simp
  have "map order_id (orders (?B st)) = map order_id (orders st)"
    by (rule isolated_ids [OF isolated_handleBuyOrders])
  then have s: "?S (?B st) = extend (?B st) (?S (blank (orders st)))"
    by (rule isolatedD(1) [OF isolated_handleSellOrders])
  show ?thesis
    using assms by (simp add: handleOrder_alt s b [symmetric])
qed

lemma handleOrder_cases:
  "handleOrder env st e = st \<or>
   (\<exists>p pl. getNftPoolDetails env (pool e) = Inr (Some p) \<and> pool e = allowedPool \<and>
      priceLoop env (pool e) 0 [] = Inr pl)"
proof (cases "getNftPoolDetails env (pool e)")
  case (Inl err)
  then show ?thesis by (simp add: handleOrder_alt)
next
  case (Inr x)
  show ?thesis
  proof (cases x)
    case None
    with Inr show ?thesis by (simp add: handleOrder_alt)
  next
    case (Some p)
    show ?thesis
    proof (cases "pool e = allowedPool")
      case True
      show ?thesis
      proof (cases "priceLoop env (pool e) 0 []")
        case (Inl err)
        with Inr Some True show ?thesis by (simp add: handleOrder_alt)
      next
        case r: (Inr pl)
        with Inr Some True show ?thesis by blast
      qed
    next
      case False
      with Inr Some show ?thesis by (simp add: handleOrder_alt)
    qed
  qed
qed

lemma buy_leg_rows:
  assumes "r \<in> set (orderValues (snd (handleBuyOrders env e p pl fs (blank os))))"
  shows "\<exists>q0 qs v ts src pr mr nv.
     pl = q0 # qs \<and> sell q0 = Some v \<and> first_price (List.map_filter raw_sell pl) = Some pr \<and>
     r = buy_row env e p (getOrderId (keccak256 env) (pool e) Buy None) ts src (currency q0) pr v
           (List.map_filter raw_sell pl) (feesAfterBuy p pl fs)
           (buy_sdkOrder env p pr (List.map_filter raw_sell pl)) mr nv"
proof -
  obtain q0 qs where pl: "pl = q0 # qs"
    using assms by (cases pl) (auto simp: snd_handleBuyOrders)
  obtain v where v: "sell q0 = Some v"
    using assms pl
    by (cases "sell q0") (auto simp: snd_handleBuyOrders push_result_def idb_none_def)
  define prices where "prices = List.map_filter raw_sell pl"
  define fs' where "fs' = feesAfterBuy p pl fs"
  let ?i = "getOrderId (keccak256 env) (pool e) Buy None"
  let ?run = "buyFillable env e p ?i (currency q0) v prices fs' (blank os)"
  obtain st' where st': "?run = Inr st'" "r \<in> set (orderValues st')"
    using assms pl v unfolding prices_def fs'_def
    by (cases "buyFillable env e p ?i (currency q0) v (List.map_filter raw_sell pl)
                 (feesAfterBuy p pl fs) (blank os)")
       (auto simp: snd_handleBuyOrders)
  show ?thesis
    using st' pl v unfolding buyFillable_Inr prices_def [symmetric] fs'_def [symmetric]
    by (auto simp: push_result_def push_orderValues_def idb_none_def) ((blast+)?)
qed

lemma buy_leg_updates:
  assumes "UpdateFillable u \<in> set (statements (snd (handleBuyOrders env e p pl fs (blank os))))"
  shows "\<exists>q0 qs v pr mr nv.
     pl = q0 # qs \<and> sell q0 = Some v \<and> first_price (List.map_filter raw_sell pl) = Some pr \<and>
     u = fillable_update (getOrderId (keccak256 env) (pool e) Buy None) pr v
           (length (List.map_filter raw_sell pl)) e
           (buy_sdkOrder env p pr (List.map_filter raw_sell pl)) mr nv (feesAfterBuy p pl fs)"
proof -
  obtain q0 qs where pl: "pl = q0 # qs"
    using assms by (cases pl) (auto simp: snd_handleBuyOrders)
  obtain v where v: "sell q0 = Some v"
    using assms pl
    by (cases "sell q0") (auto simp: snd_handleBuyOrders push_result_def idb_none_def)
  define prices where "prices = List.map_filter raw_sell pl"
  define fs' where "fs' = feesAfterBuy p pl fs"
  let ?i = "getOrderId (keccak256 env) (pool e) Buy None"
  let ?run = "buyFillable env e p ?i (currency q0) v prices fs' (blank os)"
  obtain st' where st': "?run = Inr st'" "UpdateFillable u \<in> set (statements st')"
    using assms pl v unfolding prices_def fs'_def
    by (cases "buyFillable env e p ?i (currency q0) v (List.map_filter raw_sell pl)
                 (feesAfterBuy p pl fs) (blank os)")
       (auto simp: snd_handleBuyOrders)
  show ?thesis
    using st' pl v unfolding buyFillable_Inr prices_def [symmetric] fs'_def [symmetric]
    by (auto simp: push_result_def push_orderValues_def idb_none_def) ((blast+)?)
qed

lemma item_rows:
  assumes "r \<in> set (orderValues (handleTokenId env e p cur v prices fs mr nv (blank os) t))"
  shows "\<exists>ts src pr. first_price prices = Some pr \<and>
     r = sell_row env e p (getOrderId (keccak256 env) (pool e) Sell (Some t)) ts src cur pr v fs
           (sell_sdkOrder env p t pr prices) mr nv"
proof -
  let ?run = "sellItem env e p cur v prices fs mr nv t (blank os)"
  obtain st' where st': "?run = Inr st'" "r \<in> set (orderValues st')"
    using assms by (cases ?run) (auto simp: handleTokenId_def)
  show ?thesis
    using st' unfolding sellItem_Inr
    by (auto simp: push_result_def push_orderValues_def idb_none_def) ((blast+)?)
qed

lemma item_updates:
  assumes "UpdateFillable u \<in> set (statements (handleTokenId env e p cur v prices fs mr nv (blank os) t))"
  shows "\<exists>pr. first_price prices = Some pr \<and>
     u = fillable_update (getOrderId (keccak256 env) (pool e) Sell (Some t)) pr v 1 e
           (sell_sdkOrder env p t pr prices) mr nv fs"
proof -
  let ?run = "sellItem env e p cur v prices fs mr nv t (blank os)"
  obtain st' where st': "?run = Inr st'" "UpdateFillable u \<in> set (statements st')"
    using assms by (cases ?run) (auto simp: handleTokenId_def)
  show ?thesis
    using st' unfolding sellItem_Inr
    by (auto simp: push_result_def push_orderValues_def idb_none_def) ((blast+)?)
qed

lemma sell_leg_items:
  assumes "pl = q0 # qs" and "buy q0 = Some v"
    and "sellPrepare env p v (List.map_filter raw_buy pl) = Inr (mr, nv, ids)"
  shows "snd (handleSellOrders env e p pl fs st) =
     foldl (handleTokenId env e p (currency q0) v (List.map_filter raw_buy pl)
              (feesAfterSell p pl fs) mr nv) st ids"
  using assms by (simp add: snd_handleSellOrders)

lemma sell_leg_rows:
  assumes "r \<in> set (orderValues (snd (handleSellOrders env e p pl fs (blank os))))"
  shows "\<exists>q0 qs v t ts src pr mr nv.
     pl = q0 # qs \<and> buy q0 = Some v \<and> first_price (List.map_filter raw_buy pl) = Some pr \<and>
     r = sell_row env e p (getOrderId (keccak256 env) (pool e) Sell (Some t)) ts src (currency q0)
           pr v (feesAfterSell p pl fs) (sell_sdkOrder env p t pr (List.map_filter raw_buy pl)) mr nv"
proof -
  obtain q0 qs where pl: "pl = q0 # qs"
    using assms by (cases pl) (auto simp: snd_handleSellOrders)
  obtain v where v: "buy q0 = Some v"
    using assms pl by (cases "buy q0") (auto simp: snd_handleSellOrders)
  obtain mr nv ids where pr: "sellPrepare env p v (List.map_filter raw_buy pl) = Inr (mr, nv, ids)"
    using assms pl v
    by (cases "sellPrepare env p v (List.map_filter raw_buy pl)") (auto simp: snd_handleSellOrders)
  let ?h = "handleTokenId env e p (currency q0) v (List.map_filter raw_buy pl)
              (feesAfterSell p pl fs) mr nv"
  have "orderValues (foldl ?h (blank os) ids) =
        concat (map (\<lambda>t. orderValues (?h (blank os) t)) ids)"
    by (rule foldl_isolated_blank(2) [OF isolated_handleTokenId])
  then obtain t where "r \<in> set (orderValues (?h (blank os) t))"
    using assms unfolding sell_leg_items [OF pl v pr] by auto
  from item_rows [OF this] show ?thesis
    using pl v by blast
qed

lemma sell_leg_updates:
  assumes "UpdateFillable u \<in> set (statements (snd (handleSellOrders env e p pl fs (blank os))))"
  shows "\<exists>q0 qs v t pr mr nv.
     pl = q0 # qs \<and> buy q0 = Some v \<and> first_price (List.map_filter raw_buy pl) = Some pr \<and>
     u = fillable_update (getOrderId (keccak256 env) (pool e) Sell (Some t)) pr v 1 e
           (sell_sdkOrder env p t pr (List.map_filter raw_buy pl)) mr nv (feesAfterSell p pl fs)"
proof -
  obtain q0 qs where pl: "pl = q0 # qs"
    using assms by (cases pl) (auto simp: snd_handleSellOrders)
  obtain v where v: "buy q0 = Some v"
    using assms pl by (cases "buy q0") (auto simp: snd_handleSellOrders)
  obtain mr nv ids where pr: "sellPrepare env p v (List.map_filter raw_buy pl) = Inr (mr, nv, ids)"
    using assms pl v
    by (cases "sellPrepare env p v (List.map_filter raw_buy pl)") (auto simp: snd_handleSellOrders)
  let ?h = "handleTokenId env e p (currency q0) v (List.map_filter raw_buy pl)
              (feesAfterSell p pl fs) mr nv"
  have "statements (foldl ?h (blank os) ids) =
        concat (map (\<lambda>t. statements (?h (blank os) t)) ids)"
    by (rule foldl_isolated_blank(3) [OF isolated_handleTokenId])
  then obtain t where "UpdateFillable u \<in> set (statements (?h (blank os) t))"
    using assms unfolding sell_leg_items [OF pl v pr] by auto
  from item_updates [OF this] show ?thesis
    using pl v by blast
qed

lemma handleOrder_new:
  assumes "getNftPoolDetails env (pool e) = Inr (Some p)" and "pool e = allowedPool"
    and "priceLoop env (pool e) 0 [] = Inr pl"
  shows "drop (length (orderValues st)) (orderValues (handleOrder env st e)) =
           map (\<lambda>r. r\<lparr>fee_breakdown := snd (feesAfterSell p pl (feesAfterBuy p pl (0, [])))\<rparr>)
             (orderValues (snd (handleBuyOrders env e p pl (0, []) (blank (orders st)))) @
              orderValues (snd (handleSellOrders env e p pl (feesAfterBuy p pl (0, []))
                                  (blank (orders st)))))"
    and "drop (length (statements st)) (statements (handleOrder env st e)) =
           statements (snd (handleBuyOrders env e p pl (0, []) (blank (orders st)))) @
           statements (snd (handleSellOrders env e p pl (feesAfterBuy p pl (0, []))
                               (blank (orders st))))"
    and "drop (length (results st)) (results (handleOrder env st e)) =
           results (snd (handleBuyOrders env e p pl (0, []) (blank (orders st)))) @
           results (snd (handleSellOrders env e p pl (feesAfterBuy p pl (0, []))
                            (blank (orders st))))"
  unfolding handleOrder_legs [OF assms]
  by (simp_all add: shareFeeBreakdown_def)

lemma first_price_Some: "first_price xs = Some x \<longleftrightarrow> (\<exists>rest. xs = x # rest)"
  by (cases xs) (auto simp: first_price_def)

lemma length_map_filter: "length (List.map_filter f xs) = length (filter (\<lambda>x. f x \<noteq> None) xs)"
  by (induction xs) (auto simp: List.map_filter_simps split: option.splits)

lemma order_side_rows [simp]:
  "order_side (sell_row env e p i ts src cur pr v fs sdk mr nv) = Sell"
  "order_side (buy_row env e p i ts src cur pr v prices fs sdk mr nv) = Buy"
  by (simp_all add: sell_row_def buy_row_def)

lemma sell_leg_rows_side:
  assumes "r \<in> set (orderValues (snd (handleSellOrders env e p pl fs (blank os))))"
  shows "order_side r = Sell"
  using sell_leg_rows [OF assms] by auto

lemma buy_leg_rows_side:
  assumes "r \<in> set (orderValues (snd (handleBuyOrders env e p pl fs (blank os))))"
  shows "order_side r = Buy"
  using buy_leg_rows [OF assms] by auto

lemma sell_leg_rows_fees:
  assumes "r \<in> set (orderValues (snd (handleSellOrders env e p pl fs (blank os))))"
  shows "fee_bps r = fst (feesAfterSell p pl fs)"
  using sell_leg_rows [OF assms] by (auto simp: sell_row_def)

lemma sell_leg_updates_fees:
  assumes "UpdateFillable u \<in> set (statements (snd (handleSellOrders env e p pl fs (blank os))))"
  shows "u_feeBps u = fst (feesAfterSell p pl fs)" "u_feeBreakdown u = snd (feesAfterSell p pl fs)"
    "sp_specificIds (u_rawData u) \<noteq> []"
  using sell_leg_updates [OF assms] by (auto simp: fillable_update_def sell_sdkOrder_def)

lemma buy_leg_updates_fees:
  assumes "UpdateFillable u \<in> set (statements (snd (handleBuyOrders env e p pl fs (blank os))))"
  shows "u_feeBps u = fst (feesAfterBuy p pl fs)" "u_feeBreakdown u = snd (feesAfterBuy p pl fs)"
    "sp_specificIds (u_rawData u) = []"
  using buy_leg_updates [OF assms] by (auto simp: fillable_update_def buy_sdkOrder_def)

section \<open>A fold of isolated steps adds what each step records alone\<close>
lemma foldl_extend:
  fixes h :: "'h state \<Rightarrow> 'b \<Rightarrow> 'h state" and os :: "'h DbOrder list"
  assumes iso: "\<And>t. isolated (\<lambda>st. h st t)"
    and ids: "map order_id (orders st) = map order_id os"
  shows "foldl h st ts = foldl (\<lambda>s t. extend s (h (blank os) t)) st ts"
  using ids
proof (induction ts arbitrary: st)
  case Nil
  then show ?case by simp
next
  case (Cons t ts)
  have step: "h st t = extend st (h (blank os) t)"
    using isolatedD(1) [OF iso Cons.prems] .
  have "map order_id (orders (h st t)) = map order_id os"
    using isolated_ids [OF iso, of st t] Cons.prems by simp
  from Cons.IH [OF this] show ?case
    by (simp add: step)
qed

lemma results_success:
  "list_all (\<lambda>r. status r = ''success'') (results (fst (save env es os)))"
proof -
  have "tagged (handleAll env es os)"
    unfolding handleAll_def by (rule events_tagged)
  then show ?thesis
    by (auto simp: tagged_def fst_save flush_simps list_all_iff)
qed

section \<open>Handling the same events again\<close>
lemma isolated_blank:
  fixes os :: "'h DbOrder list"
  assumes "isolated f" and "isolated g"
  shows "results (g (f (blank os))) = results (f (blank os)) @ results (g (blank os))"
    and "orderValues (g (f (blank os))) = orderValues (f (blank os)) @ orderValues (g (blank os))"
    and "statements (g (f (blank os))) = statements (f (blank os)) @ statements (g (blank os))"
proof -
  have "map order_id (orders (f (blank os))) = map order_id os"
    using isolated_ids [OF assms(1), of "blank os"] by simp
  then have "g (f (blank os)) = extend (f (blank os)) (g (blank os))"
    by (rule isolatedD(1) [OF assms(2)])
  then show "results (g (f (blank os))) = results (f (blank os)) @ results (g (blank os))"
    and "orderValues (g (f (blank os))) = orderValues (f (blank os)) @ orderValues (g (blank os))"
    and "statements (g (f (blank os))) = statements (f (blank os)) @ statements (g (blank os))"
    by simp_all
qed

lemma replays_id: "replays os os' (\<lambda>st. st)"
  by (simp add: replays_def)

lemma replays_comp:
  assumes "isolated f" and "isolated g" and "replays os os' f" and "replays os os' g"
  shows "replays os os' (\<lambda>st. g (f st))"
  using assms(3,4) unfolding replays_def isolated_blank [OF assms(1,2)] set_append
  by (simp add: ball_Un) blast

lemma replays_foldl:
  assumes "\<And>t. isolated (\<lambda>st. h st t)" and "\<And>t. replays os os' (\<lambda>st. h st t)"
  shows "replays os os' (\<lambda>st. foldl h st ts)"
proof (induction ts rule: rev_induct)
  case Nil
  show ?case by (simp add: replays_id)
next
  case (snoc t ts)
  show ?case
    using replays_comp [OF isolated_foldl [of h ts, OF assms(1)] assms(1) [of t] snoc.IH
        assms(2) [of t]]
    by simp
qed

lemma replays_sum:
  assumes "\<And>a. replays os os' (f a)" and "\<And>b. replays os os' (g b)"
  shows "replays os os' (\<lambda>st. case x of Inl a \<Rightarrow> f a st | Inr b \<Rightarrow> g b st)"
  using assms by (cases x) auto

lemma replays_option:
  assumes "replays os os' f" and "\<And>b. replays os os' (g b)"
  shows "replays os os' (\<lambda>st. case x of None \<Rightarrow> f st | Some b \<Rightarrow> g b st)"
  using assms by (cases x) auto

lemma replays_list:
  assumes "replays os os' f" and "\<And>y ys. replays os os' (g y ys)"
  shows "replays os os' (\<lambda>st. case x of [] \<Rightarrow> f st | y # ys \<Rightarrow> g y ys st)"
  using assms by (cases x) auto

lemma replays_if:
  assumes "replays os os' f" and "replays os os' g"
  shows "replays os os' (\<lambda>st. if b then f st else g st)"
  using assms by (cases b) auto

lemma replays_prod:
  assumes "\<And>a b. replays os os' (f a b)"
  shows "replays os os' (\<lambda>st. case x of (a, b) \<Rightarrow> f a b st)"
  using assms by (cases x) auto

lemma redb_oneOrNone_blank:
  "redb_oneOrNone (blank os) i =
     (if length (filter (\<lambda>r. order_id r = i) os) = 0 then Inr False
      else if length (filter (\<lambda>r. order_id r = i) os) = 1 then Inr True
      else Inl (Error ''Multiple rows were not expected.''))"
  by (cases "filter (\<lambda>r. order_id r = i) os"; cases "tl (filter (\<lambda>r. order_id r = i) os)")
     (auto simp: redb_oneOrNone_def)

lemma upsert_blank:
  "upsert i e row u (blank os) =
     (if length (filter (\<lambda>r. order_id r = i) os) = 0
      then (case row of None \<Rightarrow> blank os
            | Some r \<Rightarrow> push_result (success i e NewOrder) (push_orderValues r (blank os)))
      else if length (filter (\<lambda>r. order_id r = i) os) = 1
      then push_result (success i e Reprice) (idb_none (UpdateFillable u) (blank os))
      else blank os)"
  by (simp add: upsert_def redb_oneOrNone_blank)

lemma filter_empty_subset:
  assumes "set (map order_id os) \<subseteq> set (map order_id os')"
    and "filter (\<lambda>r. order_id r = i) os' = []"
  shows "filter (\<lambda>r. order_id r = i) os = []"
proof -
  have "i \<notin> set (map order_id os')"
    using assms(2) by (auto simp: filter_empty_conv)
  then have "i \<notin> set (map order_id os)"
    using assms(1) by blast
  then show ?thesis
    by (auto simp: filter_empty_conv)
qed

lemma replays_upsert:
  assumes "\<And>r. row = Some r \<Longrightarrow> order_id r = i" and "u_id u = i"
  shows "replays os os' (upsert i e row u)"
  unfolding replays_def
proof (intro impI)
  assume sub: "set (map order_id os) \<subseteq> set (map order_id os')"
    and one: "\<forall>r\<in>set (orderValues (upsert i e row u (blank os))).
                length (filter (\<lambda>x. order_id x = order_id r) os') = 1"
  let ?n = "length (filter (\<lambda>r. order_id r = i) os)"
  let ?n' = "length (filter (\<lambda>r. order_id r = i) os')"
  have zero: "?n' = 0 \<Longrightarrow> ?n = 0"
    using filter_empty_subset [OF sub, of i] by simp
  have pushed: "?n = 0 \<Longrightarrow> row = Some r \<Longrightarrow> ?n' = 1" for r
    using one assms(1) [of r]
    by (simp add: upsert_blank push_result_def push_orderValues_def)
  have new: "r \<in> set (results (upsert i e row u (blank os))) \<Longrightarrow>
             triggerKind r = Some NewOrder \<Longrightarrow> ?n = 0 \<and> row \<noteq> None \<and> res_id r = i" for r
    by (auto simp: upsert_blank push_result_def push_orderValues_def idb_none_def success_def
        split: if_splits option.splits)
  show "orderValues (upsert i e row u (blank os')) = [] \<and>
        (\<forall>r\<in>set (results (upsert i e row u (blank os))). triggerKind r = Some NewOrder \<longrightarrow>
            (\<exists>r'\<in>set (results (upsert i e row u (blank os'))).
                res_id r' = res_id r \<and> triggerKind r' = Some Reprice) \<and>
            (\<exists>u'. UpdateFillable u' \<in> set (statements (upsert i e row u (blank os'))) \<and>
                  u_id u' = res_id r))"
  proof (intro conjI ballI impI)
    show "orderValues (upsert i e row u (blank os')) = []"
    proof (cases "?n' = 0")
      case True
      then have "?n = 0" by (rule zero)
      then have "row = None"
        using pushed True by (cases row) auto
      then show ?thesis
        using True by (simp add: upsert_blank)
    next
      case False
      then show ?thesis
        by (simp add: upsert_blank push_result_def idb_none_def)
    qed
  next
    fix r
    assume "r \<in> set (results (upsert i e row u (blank os)))" "triggerKind r = Some NewOrder"
    from new [OF this] obtain r' where "?n = 0" "row = Some r'" "res_id r = i"
      by auto
    with pushed [of r'] have "?n' = 1" by simp
    then show "\<exists>r'\<in>set (results (upsert i e row u (blank os'))).
                res_id r' = res_id r \<and> triggerKind r' = Some Reprice"
      using \<open>res_id r = i\<close>
      by (simp add: upsert_blank [of i e row u os'] push_result_def idb_none_def success_def)
    from \<open>?n' = 1\<close>
    show "\<exists>u'. UpdateFillable u' \<in> set (statements (upsert i e row u (blank os'))) \<and>
                u_id u' = res_id r"
      using \<open>res_id r = i\<close> assms(2)
      by (simp add: upsert_blank [of i e row u os'] push_result_def idb_none_def)
  qed
qed

lemma replays_push_update:
  "replays os os' (\<lambda>st. push_result (success i e Reprice) (idb_none s st))"
  by (simp add: replays_def push_result_def idb_none_def success_def)

lemma isolated_upsert: "isolated (upsert i e row u)"
  unfolding upsert_def
  by (intro isolated_cases isolated_option isolated_id isolated_push_new isolated_push_update) simp

lemma order_id_newSellRow:
  "newSellRow env e p cur v prices fs mr nv t pr = Some r \<Longrightarrow>
   order_id r = getOrderId (keccak256 env) (pool e) Sell (Some t)"
  by (auto simp: newSellRow_def split: sum.splits list.splits if_splits)

lemma order_id_newBuyRow:
  "newBuyRow env e p i cur v prices fs mr nv pr = Some r \<Longrightarrow> order_id r = i"
  by (auto simp: newBuyRow_def split: sum.splits list.splits if_splits)

lemma handleTokenId_upsert:
  "handleTokenId env e p cur v prices fs mr nv st t =
     (case first_price prices of
        None \<Rightarrow> st
      | Some pr \<Rightarrow>
          upsert (getOrderId (keccak256 env) (pool e) Sell (Some t)) e
            (newSellRow env e p cur v prices fs mr nv t pr)
            (fillable_update (getOrderId (keccak256 env) (pool e) Sell (Some t)) pr v 1 e
               (sell_sdkOrder env p t pr prices) mr nv fs) st)"
  by (auto simp: handleTokenId_alt upsert_def newSellRow_def
      split: option.splits sum.splits bool.splits list.splits)

lemma buyFillable_upsert:
  "(case buyFillable env e p i cur v prices fs st of Inl err \<Rightarrow> st | Inr st' \<Rightarrow> st') =
     (case getRoyaltiesByTokenSet env (contractTokenSet (nft p)) ''default'' of
        Inl err \<Rightarrow> st
      | Inr rs \<Rightarrow>
     (case royaltiesOnTop rs (first_price prices) of
        Inl err \<Rightarrow> st
      | Inr x \<Rightarrow>
     (case x of (mr, a) \<Rightarrow>
     (case first_price prices of
        None \<Rightarrow> st
      | Some pr \<Rightarrow>
          upsert i e (newBuyRow env e p i cur v prices fs mr (v - a) pr)
            (fillable_update i pr v (length prices) e (buy_sdkOrder env p pr prices) mr
               (v - a) fs) st))))"
  by (auto simp: buyFillable_alt upsert_def newBuyRow_def
      split: option.splits sum.splits bool.splits list.splits)

lemma replays_handleTokenId:
  "replays os os' (\<lambda>st. handleTokenId env e p cur v prices fs mr nv st t)"
  unfolding handleTokenId_upsert
  by (intro replays_option replays_id replays_upsert)
     (auto dest: order_id_newSellRow simp: fillable_update_def)

lemma replays_handleSellOrders:
  "replays os os' (\<lambda>st. snd (handleSellOrders env e p pl fs st))"
  unfolding snd_handleSellOrders
  by (intro replays_option replays_sum replays_list replays_prod replays_id replays_foldl
      isolated_handleTokenId replays_handleTokenId)

lemma replays_handleBuyOrders:
  "replays os os' (\<lambda>st. snd (handleBuyOrders env e p pl fs st))"
  unfolding snd_handleBuyOrders buyFillable_upsert
  by (intro replays_option replays_sum replays_list replays_prod replays_id replays_upsert
      replays_push_update) (auto dest: order_id_newBuyRow simp: fillable_update_def)

lemma replays_shareFeeBreakdown:
  assumes "replays os os' g"
  shows "replays os os' (\<lambda>st. shareFeeBreakdown (length (orderValues st)) fb (g st))"
  using assms unfolding replays_def
  by (simp add: shareFeeBreakdown_def)

lemma replays_handleOrder: "replays os os' (\<lambda>st. handleOrder env st e)"
  unfolding handleOrder_alt
  by (intro replays_option replays_sum replays_if replays_id replays_shareFeeBreakdown
      replays_comp [OF isolated_handleBuyOrders isolated_handleSellOrders
        replays_handleBuyOrders replays_handleSellOrders])

lemma replays_events: "replays os os' (\<lambda>st. foldl (handleOrder env) st es)"
  by (intro replays_foldl isolated_handleOrder replays_handleOrder)

lemma count_insert_ignore:
  fixes os :: "'h DbOrder list"
  shows "length (filter (\<lambda>x. order_id x = i) (foldl insert_ignore os rows)) =
     (if i \<in> set (map order_id os) then length (filter (\<lambda>x. order_id x = i) os)
      else if i \<in> set (map order_id rows) then 1 else 0)"
proof (induction rows arbitrary: os)
  case Nil
  then show ?case by (auto simp: filter_empty_conv)
next
  case (Cons r rows)
  show ?case
  proof (cases "order_id r \<in> set (map order_id os)")
    case True
    then have "insert_ignore os r = os" by (simp add: insert_ignore_def)
    then show ?thesis
      using Cons.IH [of os] True by auto
  next
    case False
    then have eq: "insert_ignore os r = os @ [r]" by (simp add: insert_ignore_def)
    have "order_id r = i \<Longrightarrow> filter (\<lambda>x. order_id x = i) os = []"
    proof -
      assume "order_id r = i"
      then have "\<forall>x\<in>set os. order_id x \<noteq> i"
        using False by (metis image_eqI list.set_map)
      then show ?thesis
        by (simp add: filter_empty_conv)
    qed
    then show ?thesis
      using Cons.IH [of "os @ [r]"] False unfolding foldl_Cons eq by auto
  qed
qed

lemma handleAll_ids_only:
  assumes "map order_id os' = map order_id os"
  shows "results (handleAll env es os') = results (handleAll env es os)"
    and "orderValues (handleAll env es os') = orderValues (handleAll env es os)"
    and "statements (handleAll env es os') = statements (handleAll env es os)"
proof -
  have "foldl (handleOrder env) (blank os') es =
        extend (blank os') (foldl (handleOrder env) (blank os) es)"
    by (rule isolatedD(1) [OF isolated_events]) (simp add: assms)
  then show "results (handleAll env es os') = results (handleAll env es os)"
    and "orderValues (handleAll env es os') = orderValues (handleAll env es os)"
    and "statements (handleAll env es os') = statements (handleAll env es os)"
    by (simp_all add: handleAll_def)
qed

section \<open>Interleavings\<close>

lemma interleaved_set: "interleaved xss zs \<Longrightarrow> set zs = \<Union>(set ` set xss)"
proof (induction rule: interleaved.induct)
  case (interleaved_Nil xss)
  then show ?case by (auto simp: list_all_iff)
next
  case (interleaved_Cons i xss x xs zs)
  have a: "xss = take i xss @ (x # xs) # drop (Suc i) xss"
    using interleaved_Cons.hyps(1,2) by (metis id_take_nth_drop)
  have b: "xss[i := xs] = take i xss @ xs # drop (Suc i) xss"
    using interleaved_Cons.hyps(1) by (simp add: upd_conv_take_nth_drop)
  have "\<Union>(set ` set xss) = insert x (\<Union>(set ` set (xss[i := xs])))"
    unfolding b by (subst a) auto
  then show ?case
    using interleaved_Cons.IH by simp
qed

lemma interleaved_count:
  "interleaved xss zs \<Longrightarrow> count_list zs a = sum_list (map (\<lambda>xs. count_list xs a) xss)"
proof (induction rule: interleaved.induct)
  case (interleaved_Nil xss)
  then show ?case by (induction xss) auto
next
  case (interleaved_Cons i xss x xs zs)
  have a: "xss = take i xss @ (x # xs) # drop (Suc i) xss"
    using interleaved_Cons.hyps(1,2) by (metis id_take_nth_drop)
  have b: "xss[i := xs] = take i xss @ xs # drop (Suc i) xss"
    using interleaved_Cons.hyps(1) by (simp add: upd_conv_take_nth_drop)
  have "sum_list (map (\<lambda>xs. count_list xs a) xss) =
        (if x = a then 1 else 0) + sum_list (map (\<lambda>xs. count_list xs a) (xss[i := xs]))"
    unfolding b by (subst a) simp
  then show ?case
    using interleaved_Cons.IH by simp
qed

lemma interleaved_map: "interleaved xss zs \<Longrightarrow> interleaved (map (map f) xss) (map f zs)"
proof (induction rule: interleaved.induct)
  case (interleaved_Nil xss)
  then have "list_all (\<lambda>xs. xs = []) (map (map f) xss)"
    by (induction xss) auto
  then show ?case by (simp add: interleaved.interleaved_Nil)
next
  case (interleaved_Cons i xss x xs zs)
  show ?case
    using interleaved_Cons.hyps(1,2) interleaved_Cons.IH
    by (auto intro!: interleaved.interleaved_Cons [of i _ _ "map f xs"] simp: map_update)
qed

lemma interleaved_filter: "interleaved xss zs \<Longrightarrow> interleaved (map (filter P) xss) (filter P zs)"
proof (induction rule: interleaved.induct)
  case (interleaved_Nil xss)
  then have "list_all (\<lambda>xs. xs = []) (map (filter P) xss)"
    by (induction xss) auto
  then show ?case by (simp add: interleaved.interleaved_Nil)
next
  case (interleaved_Cons i xss x xs zs)
  show ?case
  proof (cases "P x")
    case True
    then show ?thesis
      using interleaved_Cons.hyps(1,2) interleaved_Cons.IH
      by (auto intro!: interleaved.interleaved_Cons [of i _ _ "filter P xs"] simp: map_update)
  next
    case False
    have "filter P xs = map (filter P) xss ! i"
      using interleaved_Cons.hyps(1,2) False by simp
    then have "map (filter P) (xss[i := xs]) = map (filter P) xss"
      by (simp add: map_update)
    then show ?thesis
      using interleaved_Cons.IH False by simp
  qed
qed

lemma interleaved_prepend:
  "interleaved (xss[i := ys]) zs \<Longrightarrow> i < length xss \<Longrightarrow> xss ! i = d @ ys \<Longrightarrow>
   interleaved xss (d @ zs)"
proof (induction d arbitrary: xss)
  case Nil
  then show ?case by (metis append_Nil list_update_id)
next
  case (Cons x d)
  have "interleaved (xss[i := d @ ys]) (d @ zs)"
    by (rule Cons.IH) (use Cons.prems in simp_all)
  then show ?case
    using Cons.prems(2,3) by (auto intro: interleaved_Cons [of i])
qed

lemma interleaved_Nil_iff: "interleaved xss [] \<longleftrightarrow> list_all (\<lambda>xs. xs = []) xss"
  by (auto elim: interleaved.cases intro: interleaved_Nil)

lemma interleaved_concat: "interleaved xss (concat xss)"
proof (induction xss)
  case Nil
  show ?case by (simp add: interleaved_Nil)
next
  case (Cons xs xss)
  have shift: "interleaved yss zs \<Longrightarrow> interleaved ([] # yss) zs" for yss and zs :: "'a list"
  proof (induction rule: interleaved.induct)
    case (interleaved_Nil xss)
    then show ?case by (simp add: interleaved.interleaved_Nil)
  next
    case (interleaved_Cons i xss x xs zs)
    show ?case
      using interleaved_Cons.hyps(1,2) interleaved_Cons.IH
      by (auto intro: interleaved.interleaved_Cons [of "Suc i"])
  qed
  have "interleaved ((xs # xss)[0 := []]) (concat xss)"
    using shift [OF Cons.IH] by simp
  from interleaved_prepend [OF this, of xs] show ?case by simp
qed

section \<open>Tasks run alone and tasks run together\<close>

lemma run_seq: "run (seq t1 t2) st = run t2 (run t1 st)"
  by (induction t1 arbitrary: st) auto

lemma run_atom [simp]: "run (atom f) st = f st"
  by (simp add: atom_def)

lemma run_reading [simp]: "run (reading i k) st = run (k (redb_oneOrNone st i)) st"
  by (simp add: reading_def)

lemma task_isolated_Step:
  fixes os :: "'h DbOrder list"
  assumes "task_isolated os (Step u k)"
  shows "map order_id (orders st) = map order_id os \<Longrightarrow> u st = extend st (u (blank os))"
    and "map order_id (orders st) = map order_id os \<Longrightarrow> k st = k (blank os)"
    and "list_all is_update (statements (u (blank os)))"
    and "task_isolated os (k (blank os))"
  using assms unfolding task_isolated.simps by blast+

lemma task_isolated_StepI:
  fixes os :: "'h DbOrder list"
  assumes "\<And>st. map order_id (orders st) = map order_id os \<Longrightarrow> u st = extend st (u (blank os))"
    and "\<And>st. map order_id (orders st) = map order_id os \<Longrightarrow> k st = k (blank os)"
    and "list_all is_update (statements (u (blank os)))"
    and "task_isolated os (k (blank os))"
  shows "task_isolated os (Step u k)"
  unfolding task_isolated.simps using assms by blast

lemma task_isolated_ids:
  fixes os :: "'h DbOrder list"
  assumes "task_isolated os (Step u k)" and "map order_id (orders st) = map order_id os"
  shows "map order_id (orders (u st)) = map order_id os"
proof -
  have "orders (u st) = foldl (\<lambda>os s. exec s os) (orders st) (statements (u (blank os)))"
    by (subst task_isolated_Step(1) [OF assms]) simp
  then show ?thesis
    using foldl_exec_ids [OF task_isolated_Step(3) [OF assms(1)], of "orders st"] assms(2) by simp
qed

lemma task_isolated_run:
  fixes os :: "'h DbOrder list"
  assumes "task_isolated os t" and "map order_id (orders st) = map order_id os"
  shows "run t st = extend st (run t (blank os)) \<and>
         list_all is_update (statements (run t (blank os)))"
  using assms
proof (induction t arbitrary: st)
  case Done
  then show ?case by simp
next
  case (Step u k)
  let ?du = "u (blank os)"
  let ?t = "k (blank os)"
  have u: "u st = extend st ?du" and k: "k st = ?t"
    using task_isolated_Step(1,2) [OF Step.prems] by blast+
  have upd: "list_all is_update (statements ?du)" and iso: "task_isolated os ?t"
    using task_isolated_Step(3,4) [OF Step.prems(1)] by blast+
  have idu: "map order_id (orders ?du) = map order_id os"
    using task_isolated_ids [OF Step.prems(1), of "blank os"] by simp
  have ids: "map order_id (orders (extend st ?du)) = map order_id os"
    using task_isolated_ids [OF Step.prems] unfolding u .
  have r1: "run ?t (extend st ?du) = extend (extend st ?du) (run ?t (blank os))"
    and r2: "list_all is_update (statements (run ?t (blank os)))"
    using Step.IH [of ?t "extend st ?du", OF _ iso ids] by auto
  have r3: "run ?t ?du = extend ?du (run ?t (blank os))"
    using Step.IH [of ?t ?du, OF _ iso idu] by auto
  have a: "run (Step u k) st = extend st (extend ?du (run ?t (blank os)))"
    unfolding run.simps u k r1 extend_assoc ..
  have b: "run (Step u k) (blank os) = extend ?du (run ?t (blank os))"
    unfolding run.simps r3 ..
  show ?case
    unfolding a b using upd r2 by simp
qed

lemma task_isolated_atom:
  fixes os :: "'h DbOrder list"
  assumes "isolated f"
  shows "task_isolated os (atom f)"
  unfolding atom_def
proof (rule task_isolated_StepI)
  fix st :: "'h state"
  assume ids: "map order_id (orders st) = map order_id os"
  show "f st = extend st (f (blank os))"
    by (rule isolatedD(1) [OF assms ids])
  show "Done = (Done :: 'h task)" ..
next
  show "list_all is_update (statements (f (blank os)))"
    by (rule isolatedD(2) [OF assms, of "blank os" os]) simp
  show "task_isolated os Done" by simp
qed

lemma task_isolated_reading:
  fixes os :: "'h DbOrder list"
  assumes "\<And>r. task_isolated os (k r)"
  shows "task_isolated os (reading i k)"
  unfolding reading_def
proof (rule task_isolated_StepI)
  fix st :: "'h state"
  assume ids: "map order_id (orders st) = map order_id os"
  show "st = extend st (blank os)" by simp
  have "redb_oneOrNone st i = redb_oneOrNone (blank os) i"
    by (rule redb_oneOrNone_ids) (simp add: ids)
  then show "k (redb_oneOrNone st i) = k (redb_oneOrNone (blank os) i)" by simp
next
  show "list_all is_update (statements (blank os))" by simp
  show "task_isolated os (k (redb_oneOrNone (blank os) i))" by (rule assms)
qed

lemma task_isolated_seq:
  fixes os :: "'h DbOrder list"
  assumes "task_isolated os t1" and "task_isolated os t2"
  shows "task_isolated os (seq t1 t2)"
  using assms(1)
proof (induction t1)
  case Done
  show ?case using assms(2) by simp
next
  case (Step u k)
  have "task_isolated os (seq (k (blank os)) t2)"
    by (rule Step.IH) (use task_isolated_Step(4) [OF Step.prems] in simp_all)
  then show ?case
    unfolding seq.simps
  proof (intro task_isolated_StepI)
    fix st :: "'h state"
    assume ids: "map order_id (orders st) = map order_id os"
    show "u st = extend st (u (blank os))"
      by (rule task_isolated_Step(1) [OF Step.prems ids])
    show "seq (k st) t2 = seq (k (blank os)) t2"
      by (simp only: task_isolated_Step(2) [OF Step.prems ids])
  next
    show "list_all is_update (statements (u (blank os)))"
      by (rule task_isolated_Step(3) [OF Step.prems])
  qed
qed

lemma runs_trace:
  fixes os :: "'h DbOrder list"
  assumes "runs ts st st'" and "list_all (task_isolated os) ts"
    and "map order_id (orders st) = map order_id os"
  shows "\<exists>d. st' = extend st d \<and>
     interleaved (map (\<lambda>t. results (run t (blank os))) ts) (results d) \<and>
     interleaved (map (\<lambda>t. orderValues (run t (blank os))) ts) (orderValues d) \<and>
     interleaved (map (\<lambda>t. statements (run t (blank os))) ts) (statements d) \<and>
     list_all is_update (statements d)"
  using assms
proof (induction rule: runs.induct)
  case (finished ts st)
  have "list_all (\<lambda>xs. xs = []) (map (\<lambda>t. results (run t (blank os))) ts)"
    "list_all (\<lambda>xs. xs = []) (map (\<lambda>t. orderValues (run t (blank os))) ts)"
    "list_all (\<lambda>xs. xs = []) (map (\<lambda>t. statements (run t (blank os))) ts)"
    using finished.hyps by (induction ts; simp)+
  then show ?case
    by (intro exI [of _ "blank os"]) (simp add: interleaved_Nil)
next
  case (advance i ts u k st st')
  let ?du = "u (blank os)"
  let ?t = "k (blank os)"
  have iso: "task_isolated os (Step u k)"
    using advance.hyps(1,2) advance.prems(1) by (metis list_all_length)
  have u: "u st = extend st ?du" and k: "k st = ?t"
    using task_isolated_Step(1,2) [OF iso advance.prems(2)] by blast+
  have upd: "list_all is_update (statements ?du)" and iso': "task_isolated os ?t"
    using task_isolated_Step(3,4) [OF iso] by blast+
  have idu: "map order_id (orders ?du) = map order_id os"
    using task_isolated_ids [OF iso, of "blank os"] by simp
  have ids: "map order_id (orders (u st)) = map order_id os"
    using task_isolated_ids [OF iso advance.prems(2)] .
  have all: "list_all (task_isolated os) (ts[i := k st])"
    using advance.prems(1) advance.hyps(1) iso' unfolding k list_all_length
    by (auto simp: nth_list_update)
  obtain d where d: "st' = extend (u st) d"
    "interleaved (map (\<lambda>t. results (run t (blank os))) (ts[i := k st])) (results d)"
    "interleaved (map (\<lambda>t. orderValues (run t (blank os))) (ts[i := k st])) (orderValues d)"
    "interleaved (map (\<lambda>t. statements (run t (blank os))) (ts[i := k st])) (statements d)"
    "list_all is_update (statements d)"
    using advance.IH [OF all ids] by blast
  have alone: "run (Step u k) (blank os) = extend ?du (run ?t (blank os))"
    using task_isolated_run [OF iso' idu] unfolding run.simps by blast
  have at: "ts ! i = Step u k" and len: "i < length ts"
    using advance.hyps(1,2) by simp_all
  have n1: "map (\<lambda>t. results (run t (blank os))) ts ! i =
            results ?du @ results (run ?t (blank os))"
    and n2: "map (\<lambda>t. orderValues (run t (blank os))) ts ! i =
            orderValues ?du @ orderValues (run ?t (blank os))"
    and n3: "map (\<lambda>t. statements (run t (blank os))) ts ! i =
            statements ?du @ statements (run ?t (blank os))"
    using len by (simp_all add: at alone del: run.simps)
  have "interleaved (map (\<lambda>t. results (run t (blank os))) ts) (results ?du @ results d)"
    by (rule interleaved_prepend [OF _ _ n1]) (use d(2) len in \<open>simp_all add: map_update k\<close>)
  moreover have "interleaved (map (\<lambda>t. orderValues (run t (blank os))) ts)
                   (orderValues ?du @ orderValues d)"
    by (rule interleaved_prepend [OF _ _ n2]) (use d(3) len in \<open>simp_all add: map_update k\<close>)
  moreover have "interleaved (map (\<lambda>t. statements (run t (blank os))) ts)
                   (statements ?du @ statements d)"
    by (rule interleaved_prepend [OF _ _ n3]) (use d(4) len in \<open>simp_all add: map_update k\<close>)
  ultimately show ?case
    using upd d(5)
    by (intro exI [of _ "extend ?du d"]) (simp add: d(1) u extend_assoc)
qed

lemma runs_shift: "runs ts st st' \<Longrightarrow> runs (Done # ts) st st'"
proof (induction rule: runs.induct)
  case (finished ts st)
  then show ?case by (simp add: runs.finished)
next
  case (advance i ts u k st st')
  show ?case
    using advance.hyps(1,2) advance.IH by (auto intro: runs.advance [of "Suc i"])
qed

lemma runs_head:
  "runs (Done # ts) (run t st) st' \<Longrightarrow> runs (t # ts) st st'"
proof (induction t arbitrary: st)
  case Done
  then show ?case by simp
next
  case (Step u k)
  have "runs (k st # ts) (u st) st'"
    by (rule Step.IH) (use Step.prems in simp_all)
  then show ?case
    by (auto intro: runs.advance [of 0])
qed

lemma runs_sequential: "runs ts st (foldl (\<lambda>s t. run t s) st ts)"
proof (induction ts arbitrary: st)
  case Nil
  show ?case by (simp add: runs.finished)
next
  case (Cons t ts)
  have "runs (Done # ts) (run t st) (foldl (\<lambda>s t. run t s) (run t st) ts)"
    by (rule runs_shift) (rule Cons.IH)
  then show ?case
    by (simp add: runs_head)
qed

section \<open>The task of an event\<close>

lemma shareFeeBreakdown_same [simp]:
  "shareFeeBreakdown (length (orderValues st)) fb st = st"
  by (simp add: shareFeeBreakdown_def)

lemma run_upsertTask:
  "run (upsertTask i e (map_option (\<lambda>r. r\<lparr>fee_breakdown := fb\<rparr>) row) u) st =
   shareFeeBreakdown (length (orderValues st)) fb (upsert i e row u st)"
  by (cases "redb_oneOrNone st i"; cases row)
     (auto simp: upsertTask_def upsert_def run_seq shareFeeBreakdown_def push_result_def
        push_orderValues_def idb_none_def split: bool.splits)

lemma shareFeeBreakdown_comp:
  assumes "isolated g" and "n \<le> length (orderValues st)"
  shows "shareFeeBreakdown (length (orderValues (shareFeeBreakdown n fb st))) fb
           (g (shareFeeBreakdown n fb st)) = shareFeeBreakdown n fb (g st)"
proof -
  let ?st = "shareFeeBreakdown n fb st"
  have o: "orders ?st = orders st"
    by (simp add: shareFeeBreakdown_def)
  have a: "g ?st = extend ?st (g (blank (orders st)))"
    using isolatedD(1) [OF assms(1), of ?st "orders st"] o by simp
  have b: "g st = extend st (g (blank (orders st)))"
    using isolatedD(1) [OF assms(1), of st "orders st"] by simp
  show ?thesis
    unfolding a
    by (subst b) (use assms(2) in \<open>simp add: shareFeeBreakdown_def extend_def\<close>)
qed

lemma isolated_grows:
  assumes "isolated g"
  shows "length (orderValues st) \<le> length (orderValues (g st))"
  using isolatedD(1) [OF assms, of st "orders st"] by (metis extend_simps(2) le_add1 length_append)

lemma run_tokenIdTask:
  "run (tokenIdTask env e p cur v prices fs mr nv fb t) st =
   shareFeeBreakdown (length (orderValues st)) fb (handleTokenId env e p cur v prices fs mr nv st t)"
  by (cases "first_price prices")
     (simp_all add: tokenIdTask_def handleTokenId_upsert run_upsertTask Let_def)

lemma run_tokenIdTasks:
  "run (foldr (\<lambda>t rest. seq (tokenIdTask env e p cur v prices fs mr nv fb t) rest) ids Done) st =
   shareFeeBreakdown (length (orderValues st)) fb
     (foldl (handleTokenId env e p cur v prices fs mr nv) st ids)"
proof (induction ids arbitrary: st)
  case Nil
  show ?case by simp
next
  case (Cons t ids)
  let ?h = "handleTokenId env e p cur v prices fs mr nv"
  have iso: "isolated (\<lambda>st. foldl ?h st ids)"
    by (rule isolated_foldl) (rule isolated_handleTokenId)
  have le: "length (orderValues st) \<le> length (orderValues (?h st t))"
    by (rule isolated_grows [OF isolated_handleTokenId])
  show ?case
    using shareFeeBreakdown_comp [OF iso le, of fb]
    by (simp add: run_seq run_tokenIdTask Cons.IH)
qed

lemma run_sellTask:
  "run (sellTask env e p pl fs fb) st =
   shareFeeBreakdown (length (orderValues st)) fb (snd (handleSellOrders env e p pl fs st))"
  by (simp add: sellTask_def snd_handleSellOrders run_tokenIdTasks feesAfterSell_def Let_def
      split: list.splits option.splits sum.splits prod.splits)

lemma run_buyTask:
  "run (buyTask env e p pl fs fb) st =
   shareFeeBreakdown (length (orderValues st)) fb (snd (handleBuyOrders env e p pl fs st))"
  by (simp add: buyTask_def snd_handleBuyOrders buyFillable_upsert run_upsertTask feesAfterBuy_def
      Let_def run_seq shareFeeBreakdown_def push_result_def idb_none_def
      split: list.splits option.splits sum.splits prod.splits)

lemma run_eventTask: "run (eventTask env e) st = handleOrder env st e"
proof -
  have "run (seq (buyTask env e p pl (0, []) fb) (sellTask env e p pl fs1 fb)) st =
        shareFeeBreakdown (length (orderValues st)) fb
          (snd (handleSellOrders env e p pl fs1 (snd (handleBuyOrders env e p pl (0, []) st))))"
    for p pl fb fs1
  proof -
    have le: "length (orderValues st) \<le>
              length (orderValues (snd (handleBuyOrders env e p pl (0, []) st)))"
      by (rule isolated_grows [OF isolated_handleBuyOrders])
    show ?thesis
      using shareFeeBreakdown_comp [OF isolated_handleSellOrders le, where fb = fb]
      by (simp add: run_seq run_buyTask run_sellTask)
  qed
  then show ?thesis
    by (simp add: eventTask_def handleOrder_alt Let_def split: sum.splits option.splits)
qed

lemma task_isolated_upsertTask:
  fixes os :: "'h DbOrder list"
  shows "task_isolated os (upsertTask i e row u)"
  unfolding upsertTask_def
proof (rule task_isolated_reading)
  fix r :: "error + bool"
  have a: "task_isolated os (atom (\<lambda>st. push_result (success i e NewOrder) (push_orderValues x st)))" for x
    by (rule task_isolated_atom [OF isolated_push_new])
  have b: "task_isolated os (seq (atom (idb_none (UpdateFillable u)))
                        (atom (push_result (success i e Reprice))))"
    by (intro task_isolated_seq task_isolated_atom isolated_idb_none isolated_push_result) simp
  show "task_isolated os (case r of Inl e \<Rightarrow> Done
          | Inr False \<Rightarrow>
              (case row of None \<Rightarrow> Done
               | Some r \<Rightarrow> atom (\<lambda>st. push_result (success i e NewOrder) (push_orderValues r st)))
          | Inr True \<Rightarrow> seq (atom (idb_none (UpdateFillable u)))
                          (atom (push_result (success i e Reprice))))"
    using a b by (cases r; cases row) (auto split: bool.splits)
qed

lemma task_isolated_tokenIdTask:
  fixes os :: "'h DbOrder list"
  shows "task_isolated os (tokenIdTask env e p cur v prices fs mr nv fb t)"
  by (cases "first_price prices") (simp_all add: tokenIdTask_def task_isolated_upsertTask Let_def)

lemma task_isolated_tokenIdTasks:
  fixes os :: "'h DbOrder list"
  shows "task_isolated os (foldr (\<lambda>t rest. seq (tokenIdTask env e p cur v prices fs mr nv fb t) rest) ids Done)"
  by (induction ids) (simp_all add: task_isolated_seq task_isolated_tokenIdTask)

lemma task_isolated_sellTask:
  fixes os :: "'h DbOrder list"
  shows "task_isolated os (sellTask env e p pl fs fb)"
  by (simp add: sellTask_def task_isolated_tokenIdTasks Let_def
      split: list.splits option.splits sum.splits prod.splits)

lemma task_isolated_buyTask:
  fixes os :: "'h DbOrder list"
  shows "task_isolated os (buyTask env e p pl fs fb)"
proof -
  have "task_isolated os (seq (atom (idb_none (UpdateNoBalance i ts)))
                     (atom (push_result (success i e Reprice))))" for i ts
    by (intro task_isolated_seq task_isolated_atom isolated_idb_none isolated_push_result) simp
  then show ?thesis
    by (simp add: buyTask_def task_isolated_upsertTask Let_def
        split: list.splits option.splits sum.splits prod.splits)
qed

lemma task_isolated_eventTask:
  fixes os :: "'h DbOrder list"
  shows "task_isolated os (eventTask env e)"
  by (simp add: eventTask_def task_isolated_seq task_isolated_buyTask task_isolated_sellTask Let_def
      split: sum.splits option.splits)

lemma allHandled_sequential: "allHandled env es os (handleAll env es os)"
proof -
  have "foldl (\<lambda>s t. run t s) st (map (eventTask env) es) = foldl (handleOrder env) st es" for st
    by (induction es arbitrary: st) (simp_all add: run_eventTask)
  then show ?thesis
    using runs_sequential [of "map (eventTask env) es" "blank os"]
    by (simp add: allHandled_def handleAll_def)
qed

lemma allHandled_trace:
  assumes "allHandled env es os st"
  shows "interleaved (map (\<lambda>e. results (handleOrder env (blank os) e)) es) (results st)"
    and "interleaved (map (\<lambda>e. orderValues (handleOrder env (blank os) e)) es) (orderValues st)"
    and "interleaved (map (\<lambda>e. statements (handleOrder env (blank os) e)) es) (statements st)"
    and "list_all is_update (statements st)"
    and "orders st = foldl (\<lambda>os s. exec s os) os (statements st)"
proof -
  have all: "list_all (task_isolated os) (map (eventTask env) es)"
    by (simp add: list_all_iff task_isolated_eventTask)
  obtain d where d: "st = extend (blank os) d"
     "interleaved (map (\<lambda>t. results (run t (blank os))) (map (eventTask env) es)) (results d)"
     "interleaved (map (\<lambda>t. orderValues (run t (blank os))) (map (eventTask env) es)) (orderValues d)"
     "interleaved (map (\<lambda>t. statements (run t (blank os))) (map (eventTask env) es)) (statements d)"
     "list_all is_update (statements d)"
    using runs_trace [OF assms [unfolded allHandled_def] all] by auto
  show "interleaved (map (\<lambda>e. results (handleOrder env (blank os) e)) es) (results st)"
    and "interleaved (map (\<lambda>e. orderValues (handleOrder env (blank os) e)) es) (orderValues st)"
    and "interleaved (map (\<lambda>e. statements (handleOrder env (blank os) e)) es) (statements st)"
    and "list_all is_update (statements st)"
    and "orders st = foldl (\<lambda>os s. exec s os) os (statements st)"
    using d(2-5) unfolding d(1) by (simp_all add: comp_def run_eventTask)
qed

section \<open>What every run of a batch records\<close>

lemma interleaved_count_concat:
  "interleaved xss zs \<Longrightarrow>
   count_list (concat zs) a = sum_list (map (\<lambda>xs. count_list (concat xs) a) xss)"
proof (induction rule: interleaved.induct)
  case (interleaved_Nil xss)
  then show ?case by (induction xss) auto
next
  case (interleaved_Cons i xss x xs zs)
  have a: "xss = take i xss @ (x # xs) # drop (Suc i) xss"
    using interleaved_Cons.hyps(1,2) by (metis id_take_nth_drop)
  have b: "xss[i := xs] = take i xss @ xs # drop (Suc i) xss"
    using interleaved_Cons.hyps(1) by (simp add: upd_conv_take_nth_drop)
  have "sum_list (map (\<lambda>xs. count_list (concat xs) a) xss) =
        count_list x a + sum_list (map (\<lambda>xs. count_list (concat xs) a) (xss[i := xs]))"
    unfolding b by (subst a) simp
  then show ?case
    using interleaved_Cons.IH by simp
qed

lemma handleOrder_alone_tagged: "tagged (handleOrder env (blank os) e)"
  by (rule handleOrder_tagged) (simp add: tagged_def)

lemma allHandled_sets:
  assumes "allHandled env es os pre"
  shows "set (results pre) = (\<Union>e\<in>set es. set (results (handleOrder env (blank os) e)))"
    and "set (orderValues pre) = (\<Union>e\<in>set es. set (orderValues (handleOrder env (blank os) e)))"
    and "set (statements pre) = (\<Union>e\<in>set es. set (statements (handleOrder env (blank os) e)))"
  using allHandled_trace(1-3) [OF assms, THEN interleaved_set] by auto

lemma allHandled_ids:
  assumes "allHandled env es os pre"
  shows "map order_id (orders pre) = map order_id os"
  using allHandled_trace(4,5) [OF assms] foldl_exec_ids by metis

lemma allHandled_tagged:
  assumes "allHandled env es os pre"
  shows "list_all (\<lambda>r. status r = ''success'' \<and>
            (triggerKind r = Some NewOrder \<or> triggerKind r = Some Reprice)) (results pre)"
    and "set (map order_id (orderValues pre)) \<inter> set (map order_id os) = {}"
    and "count_list (map order_id (orderValues pre)) i =
         count_list (map res_id (filter (\<lambda>r. triggerKind r = Some NewOrder) (results pre))) i"
    and "count_list (concat (map targets (statements pre))) i =
         count_list (map res_id (filter (\<lambda>r. triggerKind r = Some Reprice) (results pre))) i"
proof -
  let ?H = "\<lambda>e. handleOrder env (blank os) e"
  note tg = handleOrder_alone_tagged [of env os, unfolded tagged_def]
  show "list_all (\<lambda>r. status r = ''success'' \<and>
            (triggerKind r = Some NewOrder \<or> triggerKind r = Some Reprice)) (results pre)"
    unfolding list_all_iff allHandled_sets(1) [OF assms]
    using tg by (auto simp: list_all_iff)
  have idH: "map order_id (orders (?H e)) = map order_id os" for e
    using isolated_ids [OF isolated_handleOrder, where st = "blank os"] by simp
  have "order_id r \<notin> set (map order_id os)" if "r \<in> set (orderValues (?H e))" for r e
  proof -
    have "set (map order_id (orderValues (?H e))) \<inter> set (map order_id os) = {}"
      using tg [of e] unfolding idH by blast
    then show ?thesis
      using that by (metis disjoint_iff image_eqI list.set_map)
  qed
  then have "order_id r \<notin> set (map order_id os)" if "r \<in> set (orderValues pre)" for r
    using that unfolding allHandled_sets(2) [OF assms] by blast
  then show "set (map order_id (orderValues pre)) \<inter> set (map order_id os) = {}"
    by auto
  have c1: "count_list (map f (filter P (results pre))) i =
        sum_list (map (\<lambda>e. count_list (map f (filter P (results (?H e)))) i) es)" for f :: "'a SaveResult \<Rightarrow> 'a" and P
    using interleaved_count [OF interleaved_map [OF interleaved_filter
          [OF allHandled_trace(1) [OF assms]]], of f P i]
    by (simp add: comp_def)
  have c2: "count_list (map order_id (orderValues pre)) i =
        sum_list (map (\<lambda>e. count_list (map order_id (orderValues (?H e))) i) es)"
    using interleaved_count [OF interleaved_map [OF allHandled_trace(2) [OF assms]], of order_id i]
    by (simp add: comp_def)
  have c3: "count_list (concat (map targets (statements pre))) i =
        sum_list (map (\<lambda>e. count_list (concat (map targets (statements (?H e)))) i) es)"
    using interleaved_count_concat [OF interleaved_map [OF allHandled_trace(3) [OF assms]],
        of targets i]
    by (simp add: comp_def)
  show "count_list (map order_id (orderValues pre)) i =
         count_list (map res_id (filter (\<lambda>r. triggerKind r = Some NewOrder) (results pre))) i"
    unfolding c1 c2 using tg by simp
  show "count_list (concat (map targets (statements pre))) i =
         count_list (map res_id (filter (\<lambda>r. triggerKind r = Some Reprice) (results pre))) i"
    unfolding c1 c3 using tg by simp
qed

lemma refreshed_set_fillable [simp]: "refreshed u (set_fillable u y)"
  by (simp add: refreshed_def set_fillable_def)

lemma refreshed_set_no_balance [simp]: "refreshed u (set_no_balance ts y) = refreshed u y"
  by (simp add: refreshed_def set_no_balance_def)

lemma foldl_exec_refreshed:
  assumes "list_all is_update ss"
    and "x \<in> set (foldl (\<lambda>os s. exec s os) xs ss)"
    and "UpdateFillable u \<in> set ss" and "u_id u = order_id x"
  shows "\<exists>u'. UpdateFillable u' \<in> set ss \<and> u_id u' = order_id x \<and> refreshed u' x"
  using assms
proof (induction ss arbitrary: x u rule: rev_induct)
  case Nil
  then show ?case by simp
next
  case (snoc s ss)
  let ?ys = "foldl (\<lambda>os s. exec s os) xs ss"
  have upd: "list_all is_update ss" and s: "is_update s"
    using snoc.prems(1) by simp_all
  have x: "x \<in> set (exec s ?ys)"
    using snoc.prems(2) by simp
  show ?case
  proof (cases s)
    case (UpdateFillable u')
    obtain y where y: "y \<in> set ?ys" "x = (if order_id y = u_id u' then set_fillable u' y else y)"
      using x UpdateFillable by auto
    show ?thesis
    proof (cases "order_id y = u_id u'")
      case True
      then show ?thesis
        using y(2) UpdateFillable by auto
    next
      case False
      then have xy: "x = y" using y(2) by simp
      have "UpdateFillable u \<in> set ss"
        using snoc.prems(3,4) False UpdateFillable xy by auto
      from snoc.IH [OF upd _ this] y(1) snoc.prems(4) xy show ?thesis
        by auto
    qed
  next
    case (UpdateNoBalance i ts)
    obtain y where y: "y \<in> set ?ys" "x = (if order_id y = i then set_no_balance ts y else y)"
      using x UpdateNoBalance by auto
    have in_ss: "UpdateFillable u \<in> set ss"
      using snoc.prems(3) UpdateNoBalance by auto
    have idy: "u_id u = order_id y"
      using snoc.prems(4) y(2) by (simp split: if_splits)
    obtain u' where "UpdateFillable u' \<in> set ss" "u_id u' = order_id y" "refreshed u' y"
      using snoc.IH [OF upd y(1) in_ss idy] by blast
    then show ?thesis
      using y(2) by (auto split: if_splits)
  next
    case (InsertIgnore rows)
    then show ?thesis using s by simp
  qed
qed

lemma foldl_exec_no_balance:
  assumes "list_all is_update ss"
    and "x \<in> set (foldl (\<lambda>os s. exec s os) xs ss)"
    and "UpdateNoBalance (order_id x) ts \<in> set ss"
    and "\<forall>u. UpdateFillable u \<in> set ss \<longrightarrow> u_id u \<noteq> order_id x"
  shows "fillability_status x = NoBalance \<and>
         (\<exists>ts'. UpdateNoBalance (order_id x) ts' \<in> set ss \<and> expiration x = At ts')"
  using assms
proof (induction ss arbitrary: x ts rule: rev_induct)
  case Nil
  then show ?case by simp
next
  case (snoc s ss)
  let ?ys = "foldl (\<lambda>os s. exec s os) xs ss"
  have upd: "list_all is_update ss" and s: "is_update s"
    using snoc.prems(1) by simp_all
  have x: "x \<in> set (exec s ?ys)"
    using snoc.prems(2) by simp
  show ?case
  proof (cases s)
    case (UpdateFillable u')
    have ne: "u_id u' \<noteq> order_id x"
      using snoc.prems(4) UpdateFillable by simp
    obtain y where y: "y \<in> set ?ys" "x = (if order_id y = u_id u' then set_fillable u' y else y)"
      using x UpdateFillable by auto
    have xy: "x = y"
      using y(2) ne by (auto split: if_splits)
    have "UpdateNoBalance (order_id y) ts \<in> set ss"
      using snoc.prems(3) UpdateFillable xy by auto
    from snoc.IH [OF upd y(1) this] snoc.prems(4) xy show ?thesis
      by auto
  next
    case (UpdateNoBalance i ts0)
    obtain y where y: "y \<in> set ?ys" "x = (if order_id y = i then set_no_balance ts0 y else y)"
      using x UpdateNoBalance by auto
    show ?thesis
    proof (cases "order_id y = i")
      case True
      then show ?thesis
        using y(2) UpdateNoBalance by (auto simp: set_no_balance_def)
    next
      case False
      then have xy: "x = y" using y(2) by simp
      have "UpdateNoBalance (order_id y) ts \<in> set ss"
        using snoc.prems(3) UpdateNoBalance False xy by auto
      from snoc.IH [OF upd y(1) this] snoc.prems(4) xy show ?thesis
        by auto
    qed
  next
    case (InsertIgnore rows)
    then show ?thesis using s by simp
  qed
qed

lemma foldl_exec_untouched:
  assumes "list_all is_update ss" and "k < length xs"
    and "order_id (xs ! k) \<notin> set (concat (map targets ss))"
  shows "foldl (\<lambda>os s. exec s os) xs ss ! k = xs ! k"
  using assms
proof (induction ss arbitrary: xs)
  case Nil
  then show ?case by simp
next
  case (Cons s ss)
  have s: "is_update s" and upd: "list_all is_update ss"
    using Cons.prems(1) by simp_all
  have len: "k < length (exec s xs)"
    using Cons.prems(2) s by (cases s) simp_all
  have same: "exec s xs ! k = xs ! k"
    using Cons.prems(2,3) s by (cases s) auto
  have "foldl (\<lambda>os s. exec s os) (exec s xs) ss ! k = exec s xs ! k"
    by (rule Cons.IH [OF upd len]) (use Cons.prems(3) same in simp)
  then show ?case
    by (simp add: same)
qed

lemma filter_insert_ignore:
  fixes xs :: "'h DbOrder list"
  shows "filter (\<lambda>r. order_id r = i) (foldl insert_ignore xs rows) =
     (if i \<in> set (map order_id xs) then filter (\<lambda>r. order_id r = i) xs
      else take 1 (filter (\<lambda>r. order_id r = i) rows))"
proof (induction rows arbitrary: xs)
  case Nil
  then show ?case by (auto simp: filter_empty_conv)
next
  case (Cons r rows)
  show ?case
  proof (cases "order_id r \<in> set (map order_id xs)")
    case True
    then have "insert_ignore xs r = xs" by (simp add: insert_ignore_def)
    then show ?thesis
      using Cons.IH [of xs] True by auto
  next
    case False
    then have eq: "insert_ignore xs r = xs @ [r]" by (simp add: insert_ignore_def)
    have none: "i \<notin> set (map order_id xs) \<Longrightarrow> filter (\<lambda>x. order_id x = i) xs = []"
      by (auto simp: filter_empty_conv)
    show ?thesis
      using Cons.IH [of "xs @ [r]"] False none unfolding foldl_Cons eq by auto
  qed
qed

lemma update_pushed:
  assumes "st' = push_result r (idb_none (UpdateFillable u) st)"
  shows "orderValues st' = orderValues st" and "results st' = results st @ [r]"
    and "statements st' = statements st @ [UpdateFillable u]"
    and "orders st' =
      map (\<lambda>r. if order_id r = u_id u
                then r\<lparr>fillability_status := Fillable, price := u_price u,
                       currency_price := u_price u, order_value := u_value u,
                       currency_value := u_value u,
                       quantity_remaining := u_quantityRemaining u,
                       valid_between := (u_txTimestamp u, Infinity), expiration := Infinity,
                       raw_data := u_rawData u, missing_royalties := u_missingRoyalties u,
                       normalized_value := u_normalizedValue u,
                       currency_normalized_value := u_currencyNormalizedValue u,
                       fee_bps := u_feeBps u, fee_breakdown := u_feeBreakdown u\<rparr>
                else r) (orders st)"
  unfolding assms by (simp_all add: push_result_def idb_none_def set_fillable_def)

lemma row_pushed:
  assumes "st' = push_result r (push_orderValues x st)"
  shows "orderValues st' = orderValues st @ [x]" and "results st' = results st @ [r]"
    and "statements st' = statements st" and "orders st' = orders st"
  unfolding assms by (simp_all add: push_result_def push_orderValues_def)

lemma count_ids:
  fixes xs :: "'h DbOrder list"
  shows "length (filter (\<lambda>x. order_id x = i) xs) = length (filter (\<lambda>x. x = i) (map order_id xs))"
  by (induction xs) auto

section \<open>Further facts about the ladder and the examples\<close>

text \<open>A ladder that \<open>priceLoop\<close> returns has ten quotes.\<close>

lemma priceLoop_length:
  "priceLoop env a index priceList = Inr qs \<Longrightarrow> index \<le> 10 \<Longrightarrow>
   length qs = length priceList + (10 - index)"
proof (induction env a index priceList rule: priceLoop.induct)
  case (1 env pl index priceList)
  show ?case
  proof (cases "index < 10")
    case True
    then obtain poolPrice where q: "getPoolPrice env pl (index + 1) slippage = Inr poolPrice"
      and r: "priceLoop env pl (index + 1) (priceList @ [poolPrice]) = Inr qs"
      using "1.prems"(1) by (subst (asm) priceLoop.simps) (auto split: sum.splits)
    from "1.IH" [OF True q r] True show ?thesis by simp
  next
    case False
    then show ?thesis
      using "1.prems" by (subst (asm) priceLoop.simps) simp
  qed
qed

lemma priceLoop_ten: "priceLoop env a 0 [] = Inr qs \<Longrightarrow> length qs = 10"
  using priceLoop_length [of env a 0 "[]" qs] by simp

text \<open>
  The buffered buy row of the example shows the shared array at work: its \<open>feeBps\<close> is the
  rate of the buy leg, and its fee breakdown, read when the batch is flushed, also holds
  the entry that the sell leg pushed afterwards.
\<close>

lemma buffered_buy_row_shares_the_fee_breakdown:
  "fee_bps demo_buy_row = 50 \<and> map fe_bps (fee_breakdown demo_buy_row) = [50, 30]"
  by code_simp

section \<open>Claims about the order identity and the royalties\<close>

text \<open>
  C2. The order identity is a function of the pool, the side and, for a sell order, the
  token id. If the hash has no collision on the lists of typed values it is given, two
  identities are equal exactly when the pools are equal, the sides are equal and, for sell
  orders, the token ids are equal: the identity of a pool's buy order is always the same,
  it differs from that of any other pool or side, and two token ids of one pool have
  different sell identities.
\<close>

theorem getOrderId_identity:
  assumes "inj (\<lambda>(ts, vs). keccak ts vs)"
  shows "getOrderId keccak p sd t = getOrderId keccak p' sd' t' \<longleftrightarrow>
           p = p' \<and> sd = sd' \<and> (sd = Sell \<longrightarrow> t = t')"
proof -
  have eq: "keccak ts vs = keccak ts' vs' \<longleftrightarrow> ts = ts' \<and> vs = vs'" for ts vs ts' vs'
    using injD [OF assms, of "(ts, vs)" "(ts', vs')"] by auto
  show ?thesis
    by (cases sd; cases sd') (auto simp: getOrderId_def eq)
qed

theorem getOrderId_identity_witness:
  "inj (\<lambda>(ts, vs). Pair ts vs) \<and>
   getOrderId Pair ''0xa'' Buy None = getOrderId Pair ''0xa'' Buy (Some ''7'') \<and>
   getOrderId Pair ''0xa'' Buy None \<noteq> getOrderId Pair ''0xb'' Buy None \<and>
   getOrderId Pair ''0xa'' Buy None \<noteq> getOrderId Pair ''0xa'' Sell (Some ''7'') \<and>
   getOrderId Pair ''0xa'' Sell (Some ''7'') \<noteq> getOrderId Pair ''0xa'' Sell (Some ''8'')"
proof -
  have h: "inj (\<lambda>(ts, vs). Pair ts vs)"
    by (simp add: inj_def)
  show ?thesis
    using h getOrderId_identity [OF h, of "''0xa''" Buy None "''0xa''" Buy "Some ''7''"]
      getOrderId_identity [OF h, of "''0xa''" Buy None "''0xb''" Buy None]
      getOrderId_identity [OF h, of "''0xa''" Buy None "''0xa''" Sell "Some ''7''"]
      getOrderId_identity [OF h, of "''0xa''" Sell "Some ''7''" "''0xa''" Sell "Some ''8''"]
    by simp
qed

text \<open>
  C7. Whenever the registered royalties of an order's collection add up to no more than
  the built-in total, which is 0, the order has a normalized value equal to its value and
  no missing royalties. This holds for every row that \<open>save\<close> buffers for the insert and
  for every update of a fillable order that it issues.
\<close>

theorem no_royalty_gap_keeps_value:
  "(\<forall>r\<in>set (orderValues (fst (save env es os))). \<forall>rs.
      getRoyaltiesByTokenSet env (contractTokenSet (contract r)) ''default'' = Inr rs \<longrightarrow>
      sum_list (map roy_bps rs) \<le> 0 \<longrightarrow>
      normalized_value r = order_value r \<and> missing_royalties r = []) \<and>
   (\<forall>u. UpdateFillable u \<in> set (statements (fst (save env es os))) \<longrightarrow> (\<forall>rs.
      getRoyaltiesByTokenSet env (contractTokenSet (sp_collection (u_rawData u))) ''default''
        = Inr rs \<longrightarrow>
      sum_list (map roy_bps rs) \<le> 0 \<longrightarrow>
      u_normalizedValue u = u_value u \<and> u_missingRoyalties u = []))"
  using save_stOK [of env es os] unfolding stOK_def rowOK_def updOK_def
  by (auto simp: royaltiesOnTop_not_above)

theorem no_royalty_gap_keeps_value_witness:
  "orderValues (fst (save plain_env [demo_event] [])) \<noteq> [] \<and>
   list_all (\<lambda>r. normalized_value r = order_value r \<and> missing_royalties r = [])
     (orderValues (fst (save plain_env [demo_event] [])))"
proof -
  have "orderValues (fst (save plain_env [demo_event] [])) \<noteq> []"
    by code_simp
  moreover have "getRoyaltiesByTokenSet plain_env k m = Inr []" for k m
    by (simp add: plain_env_def)
  ultimately show ?thesis
    using no_royalty_gap_keeps_value [of plain_env "[demo_event]" "[]"]
    by (simp add: list_all_iff)
qed

text \<open>
  C5. For every order that a call of \<open>save\<close> produces with a non-negative price, be it a
  row buffered for the insert or an update of a fillable order, the normalized value is at
  most the value on the buy side and at least the value on the sell side. (The update of
  the buy leg is the one whose SDK order names no specific token id.)
\<close>

theorem normalized_value_bounds:
  "(\<forall>r\<in>set (orderValues (fst (save env es os))). 0 \<le> price r \<longrightarrow>
      (order_side r = Buy \<longrightarrow> normalized_value r \<le> order_value r) \<and>
      (order_side r = Sell \<longrightarrow> order_value r \<le> normalized_value r)) \<and>
   (\<forall>u. UpdateFillable u \<in> set (statements (fst (save env es os))) \<longrightarrow> 0 \<le> u_price u \<longrightarrow>
      (if sp_specificIds (u_rawData u) = [] then u_normalizedValue u \<le> u_value u
       else u_value u \<le> u_normalizedValue u))"
proof -
  have row: "rowOK env r \<Longrightarrow> 0 \<le> price r \<Longrightarrow>
      (order_side r = Buy \<longrightarrow> normalized_value r \<le> order_value r) \<and>
      (order_side r = Sell \<longrightarrow> order_value r \<le> normalized_value r)" for r :: "'a DbOrder"
    using royaltiesOnTop_amount_nonneg [of _ "price r" "missing_royalties r"]
    by (cases "order_side r") (auto simp: rowOK_def)
  have upd: "updOK env u \<Longrightarrow> 0 \<le> u_price u \<Longrightarrow>
      (if sp_specificIds (u_rawData u) = [] then u_normalizedValue u \<le> u_value u
       else u_value u \<le> u_normalizedValue u)" for u :: "'a OrderUpdate"
    using royaltiesOnTop_amount_nonneg [of _ "u_price u" "u_missingRoyalties u"]
    by (auto simp: updOK_def)
  show ?thesis
    using save_stOK [of env es os] row upd unfolding stOK_def by blast
qed

theorem normalized_value_bounds_witness:
  "order_side demo_buy_row = Buy \<and> 0 \<le> price demo_buy_row \<and>
   normalized_value demo_buy_row \<le> order_value demo_buy_row \<and>
   order_side demo_sell_row = Sell \<and> 0 \<le> price demo_sell_row \<and>
   order_value demo_sell_row \<le> normalized_value demo_sell_row"
proof -
  have a: "order_side demo_buy_row = Buy" "0 \<le> price demo_buy_row"
    "order_side demo_sell_row = Sell" "0 \<le> price demo_sell_row"
    by (code_simp+)
  have "length (orderValues (fst (save demo_env [demo_event] []))) = 3"
    by code_simp
  then have b: "demo_buy_row \<in> set (orderValues (fst (save demo_env [demo_event] [])))"
    "demo_sell_row \<in> set (orderValues (fst (save demo_env [demo_event] [])))"
    by (simp_all add: demo_buy_row_def demo_sell_row_def)
  show ?thesis
    using a b normalized_value_bounds [of demo_env "[demo_event]" "[]"] by auto
qed

text \<open>
  C3, as the code has it. When the registered royalties of an order's collection add up to
  more than 0 and some recipient has non-zero bps and an address other than the zero
  address, the order's only missing royalty carries the whole difference, the amount
  \<open>price * diffBps / 10000\<close> in \<open>BigNumber\<close> division (the floor, for a non-negative
  price) and the first such recipient. The normalized value is the \<^emph>\<open>value\<close>, the quote
  with slippage, minus the amount for a buy order and plus the amount for a sell order;
  the amount itself is computed from the \<^emph>\<open>price\<close>, the raw quote.
\<close>

theorem royalty_top_up_on_value:
  "(\<forall>r\<in>set (orderValues (fst (save env es os))). \<forall>rs v vs.
      getRoyaltiesByTokenSet env (contractTokenSet (contract r)) ''default'' = Inr rs \<longrightarrow>
      0 < sum_list (map roy_bps rs) \<longrightarrow>
      filter (\<lambda>x. roy_bps x \<noteq> 0 \<and> roy_recipient x \<noteq> AddressZero) rs = v # vs \<longrightarrow>
      missing_royalties r =
        [\<lparr>mr_bps = sum_list (map roy_bps rs),
          mr_amount = bn_div (price r * sum_list (map roy_bps rs)) 10000,
          mr_recipient = roy_recipient v\<rparr>] \<and>
      normalized_value r =
        (if order_side r = Buy
         then order_value r - bn_div (price r * sum_list (map roy_bps rs)) 10000
         else order_value r + bn_div (price r * sum_list (map roy_bps rs)) 10000) \<and>
      (0 \<le> price r \<longrightarrow>
         bn_div (price r * sum_list (map roy_bps rs)) 10000 =
         price r * sum_list (map roy_bps rs) div 10000)) \<and>
   (\<forall>u. UpdateFillable u \<in> set (statements (fst (save env es os))) \<longrightarrow> (\<forall>rs v vs.
      getRoyaltiesByTokenSet env (contractTokenSet (sp_collection (u_rawData u))) ''default''
        = Inr rs \<longrightarrow>
      0 < sum_list (map roy_bps rs) \<longrightarrow>
      filter (\<lambda>x. roy_bps x \<noteq> 0 \<and> roy_recipient x \<noteq> AddressZero) rs = v # vs \<longrightarrow>
      u_missingRoyalties u =
        [\<lparr>mr_bps = sum_list (map roy_bps rs),
          mr_amount = bn_div (u_price u * sum_list (map roy_bps rs)) 10000,
          mr_recipient = roy_recipient v\<rparr>] \<and>
      u_normalizedValue u =
        (if sp_specificIds (u_rawData u) = []
         then u_value u - bn_div (u_price u * sum_list (map roy_bps rs)) 10000
         else u_value u + bn_div (u_price u * sum_list (map roy_bps rs)) 10000) \<and>
      (0 \<le> u_price u \<longrightarrow>
         bn_div (u_price u * sum_list (map roy_bps rs)) 10000 =
         u_price u * sum_list (map roy_bps rs) div 10000)))"
proof -
  have fl: "0 \<le> x \<Longrightarrow> 0 < t \<Longrightarrow> bn_div (x * t) 10000 = x * t div 10000" for x t :: int
    by (rule bn_div_nonneg) simp_all
  show ?thesis
    using save_stOK [of env es os] unfolding stOK_def rowOK_def updOK_def
    by (auto simp: royaltiesOnTop_above fl)
qed

theorem royalty_top_up_on_value_witness:
  "order_side demo_buy_row = Buy \<and>
   price demo_buy_row = 1100 \<and> order_value demo_buy_row = 1080 \<and>
   missing_royalties demo_buy_row =
     [\<lparr>mr_bps = 500, mr_amount = 55, mr_recipient = ''0xartist''\<rparr>] \<and>
   normalized_value demo_buy_row = 1080 - 55"
proof -
  have a: "order_side demo_buy_row = Buy" "price demo_buy_row = 1100"
    "order_value demo_buy_row = 1080" "contract demo_buy_row = ''0xnft''"
    by (code_simp+)
  have "length (orderValues (fst (save demo_env [demo_event] []))) = 3"
    by code_simp
  then have b: "demo_buy_row \<in> set (orderValues (fst (save demo_env [demo_event] [])))"
    by (simp add: demo_buy_row_def)
  have c: "getRoyaltiesByTokenSet demo_env k m = Inr [\<lparr>roy_bps = 500, roy_recipient = ''0xartist''\<rparr>]"
    for k m
    by (simp add: demo_env_def)
  have d: "filter (\<lambda>x. roy_bps x \<noteq> 0 \<and> roy_recipient x \<noteq> AddressZero)
             [\<lparr>roy_bps = 500, roy_recipient = ''0xartist''\<rparr>] =
           [\<lparr>roy_bps = 500, roy_recipient = ''0xartist''\<rparr>]"
    by (simp add: AddressZero_def)
  have e: "bn_div (1100 * 500) 10000 = 55"
    by (simp add: bn_div_def)
  show ?thesis
    using royalty_top_up_on_value [of demo_env "[demo_event]" "[]", THEN conjunct1,
        rule_format, OF b c _ d]
    by (simp add: a e)
qed

text \<open>
  C3 as stated takes the normalized value of a buy order to be the base price minus the
  amount. The example buy order has price 1100, value 1080 and amount 55, and its
  normalized value is 1025, not 1045.
\<close>

theorem royalty_on_base_price_counterexample:
  "order_side demo_buy_row = Buy \<and> price demo_buy_row = 1100 \<and>
   map mr_amount (missing_royalties demo_buy_row) = [55] \<and>
   normalized_value demo_buy_row = 1025 \<and>
   normalized_value demo_buy_row \<noteq> price demo_buy_row - 55"
  by code_simp

section \<open>Claims about the buy leg\<close>

text \<open>
  C4, as the code has it. When the first quote of the ladder has no sell price, the buy leg
  issues one update by the pool's buy identity that sets the status to no-balance and the
  expiration to the transaction time: an existing buy order is changed so, every other row
  is left as it is, and no row is created or buffered. Whether or not such an order
  existed, the leg records one result for the buy identity, tagged reprice, and leaves the
  fee pair alone.
\<close>

theorem buy_leg_without_sell_price:
  assumes "sell q0 = None"
  shows "fst (handleBuyOrders env e p (q0 # qs) fs st) = fs \<and>
    orderValues (snd (handleBuyOrders env e p (q0 # qs) fs st)) = orderValues st \<and>
    results (snd (handleBuyOrders env e p (q0 # qs) fs st)) =
      results st @ [success (getOrderId (keccak256 env) (pool e) Buy None) e Reprice] \<and>
    statements (snd (handleBuyOrders env e p (q0 # qs) fs st)) =
      statements st @ [UpdateNoBalance (getOrderId (keccak256 env) (pool e) Buy None) (txTimestamp e)] \<and>
    orders (snd (handleBuyOrders env e p (q0 # qs) fs st)) =
      map (\<lambda>r. if order_id r = getOrderId (keccak256 env) (pool e) Buy None
                then r\<lparr>fillability_status := NoBalance, expiration := At (txTimestamp e)\<rparr>
                else r) (orders st)"
  using assms
  by (simp add: handleBuyOrders_def Let_def push_result_def idb_none_def set_no_balance_def)

theorem buy_leg_without_sell_price_witness:
  "sell (demo_quote 4) = None \<and>
   map fillability_status
     (orders (snd (handleBuyOrders demo_env demo_event demo_pool [demo_quote 4] (0, [])
        (blank [demo_buy_row, demo_sell_row])))) = [NoBalance, Fillable] \<and>
   map expiration
     (orders (snd (handleBuyOrders demo_env demo_event demo_pool [demo_quote 4] (0, [])
        (blank [demo_buy_row, demo_sell_row])))) = [At 1700000000, Infinity] \<and>
   map triggerKind
     (results (snd (handleBuyOrders demo_env demo_event demo_pool [demo_quote 4] (0, [])
        (blank [demo_buy_row, demo_sell_row])))) = [Some Reprice]"
proof -
  have h: "sell (demo_quote 4) = None"
    by (simp add: demo_quote_def)
  have ids: "order_id demo_buy_row = getOrderId (keccak256 demo_env) (pool demo_event) Buy None"
    "order_id demo_sell_row \<noteq> getOrderId (keccak256 demo_env) (pool demo_event) Buy None"
    "fillability_status demo_sell_row = Fillable" "expiration demo_sell_row = Infinity"
    "txTimestamp demo_event = 1700000000"
    by (code_simp+)
  show ?thesis
    using h buy_leg_without_sell_price [OF h, of demo_env demo_event demo_pool "[]" "(0, [])"
        "blank [demo_buy_row, demo_sell_row]"]
    by (simp add: ids success_def)
qed

text \<open>
  C4 as stated has the buy leg record no result when no buy order existed. On an empty
  table, with a pool that quotes no price, \<open>save\<close> creates no order and still returns
  one reprice result for the buy identity, which is also queued.
\<close>

theorem unpriced_buy_leg_records_result_counterexample:
  "orders (fst (save dry_env [demo_event] [])) = [] \<and>
   orderValues (fst (save dry_env [demo_event] [])) = [] \<and>
   map triggerKind (results (fst (save dry_env [demo_event] []))) = [Some Reprice] \<and>
   map res_id (results (fst (save dry_env [demo_event] []))) =
     [getOrderId (keccak256 dry_env) (pool demo_event) Buy None] \<and>
   map job_trigger (snd (save dry_env [demo_event] [])) = [Some Reprice]"
  by code_simp

section \<open>Claims about persistence\<close>

text \<open>
  C9. Take any run of a batch, whatever the schedule of its events.

  \<^item> The statements of the call are the updates issued while the events were handled,
    followed by one bulk insert of all the buffered rows when there is such a row, and by
    nothing otherwise. The buffered rows are those of the results tagged new-order, every
    id as often in the one as in the other, and none of them has an id of the table.
  \<^item> The insert ignores conflicts on the order id: for every id, the rows with that id
    after the insert are the rows that the table had before it, when it had one, and
    otherwise the first buffered row with that id and no other. So a row already stored, or
    buffered earlier, wins and a later duplicate is dropped; the stored rows stay where
    they are, and distinct ids stay distinct.
  \<^item> Every result tagged reprice has its update, every id as often among the updates as
    among these results. An update is executed when it is issued: the table before the
    insert is the starting table with the updates applied in the order of issue. A row
    that no update addresses is unchanged; a row addressed by an update of a fillable
    order carries the values bound by such an update; a row addressed by no-balance
    updates alone is no-balance and expires at the time given by one of them.
  \<^item> A leg or a token id whose lookup finds a row issues the update in that very step:
    the table changes at once, field by field as the statement binds them, nothing is
    buffered, and the result is tagged reprice. When the lookup finds no row, the table
    and the statements stay as they are, the row is buffered, and the result is tagged
    new-order.
\<close>

theorem one_bulk_insert_after_the_updates:
  "(allHandled env es os pre \<longrightarrow>
      statements (flush pre) =
        statements pre @ (if orderValues pre = [] then [] else [InsertIgnore (orderValues pre)]) \<and>
      list_all is_update (statements pre) \<and>
      results (flush pre) = results pre \<and>
      (\<forall>i. count_list (map order_id (orderValues pre)) i =
           count_list (map res_id (filter (\<lambda>r. triggerKind r = Some NewOrder) (results pre))) i) \<and>
      (\<forall>i. count_list (concat (map targets (statements pre))) i =
           count_list (map res_id (filter (\<lambda>r. triggerKind r = Some Reprice) (results pre))) i) \<and>
      set (map order_id (orderValues pre)) \<inter> set (map order_id os) = {} \<and>
      map order_id (orders pre) = map order_id os \<and>
      (\<forall>k<length os. order_id (os ! k) \<notin> set (concat (map targets (statements pre))) \<longrightarrow>
           orders pre ! k = os ! k) \<and>
      (\<forall>x\<in>set (orders pre). \<forall>u. UpdateFillable u \<in> set (statements pre) \<longrightarrow> u_id u = order_id x \<longrightarrow>
           (\<exists>u'. UpdateFillable u' \<in> set (statements pre) \<and> u_id u' = order_id x \<and> refreshed u' x)) \<and>
      (\<forall>x\<in>set (orders pre). \<forall>ts. UpdateNoBalance (order_id x) ts \<in> set (statements pre) \<longrightarrow>
           (\<forall>u. UpdateFillable u \<in> set (statements pre) \<longrightarrow> u_id u \<noteq> order_id x) \<longrightarrow>
           fillability_status x = NoBalance \<and>
           (\<exists>ts'. UpdateNoBalance (order_id x) ts' \<in> set (statements pre) \<and> expiration x = At ts')) \<and>
      (\<forall>i. filter (\<lambda>r. order_id r = i) (orders (flush pre)) =
           (if i \<in> set (map order_id (orders pre)) then filter (\<lambda>r. order_id r = i) (orders pre)
            else take 1 (filter (\<lambda>r. order_id r = i) (orderValues pre)))) \<and>
      (\<exists>ys. orders (flush pre) = orders pre @ ys) \<and>
      (distinct (map order_id os) \<longrightarrow> distinct (map order_id (orders (flush pre))))) \<and>
   (sellItem env e p cur v prices fs mr nv t st = Inr st' \<and>
    redb_oneOrNone st (getOrderId (keccak256 env) (pool e) Sell (Some t)) = Inr True \<longrightarrow>
      orderValues st' = orderValues st \<and>
      results st' = results st @ [success (getOrderId (keccak256 env) (pool e) Sell (Some t)) e Reprice] \<and>
      (\<exists>u. statements st' = statements st @ [UpdateFillable u] \<and>
           u_id u = getOrderId (keccak256 env) (pool e) Sell (Some t) \<and>
           first_price prices = Some (u_price u) \<and> u_value u = v \<and>
           u_quantityRemaining u = 1 \<and> u_txTimestamp u = txTimestamp e \<and>
           u_feeBps u = fst fs \<and> u_feeBreakdown u = snd fs \<and>
           orders st' =
             map (\<lambda>r. if order_id r = u_id u
                       then r\<lparr>fillability_status := Fillable, price := u_price u,
                              currency_price := u_price u, order_value := u_value u,
                              currency_value := u_value u,
                              quantity_remaining := u_quantityRemaining u,
                              valid_between := (u_txTimestamp u, Infinity), expiration := Infinity,
                              raw_data := u_rawData u, missing_royalties := u_missingRoyalties u,
                              normalized_value := u_normalizedValue u,
                              currency_normalized_value := u_currencyNormalizedValue u,
                              fee_bps := u_feeBps u, fee_breakdown := u_feeBreakdown u\<rparr>
                       else r) (orders st))) \<and>
   (buyFillable env e p i cur v prices fs st = Inr st'' \<and> redb_oneOrNone st i = Inr True \<longrightarrow>
      orderValues st'' = orderValues st \<and>
      results st'' = results st @ [success i e Reprice] \<and>
      (\<exists>u. statements st'' = statements st @ [UpdateFillable u] \<and>
           u_id u = i \<and>
           first_price prices = Some (u_price u) \<and> u_value u = v \<and>
           u_quantityRemaining u = length prices \<and> u_txTimestamp u = txTimestamp e \<and>
           u_feeBps u = fst fs \<and> u_feeBreakdown u = snd fs \<and>
           orders st'' =
             map (\<lambda>r. if order_id r = u_id u
                       then r\<lparr>fillability_status := Fillable, price := u_price u,
                              currency_price := u_price u, order_value := u_value u,
                              currency_value := u_value u,
                              quantity_remaining := u_quantityRemaining u,
                              valid_between := (u_txTimestamp u, Infinity), expiration := Infinity,
                              raw_data := u_rawData u, missing_royalties := u_missingRoyalties u,
                              normalized_value := u_normalizedValue u,
                              currency_normalized_value := u_currencyNormalizedValue u,
                              fee_bps := u_feeBps u, fee_breakdown := u_feeBreakdown u\<rparr>
                       else r) (orders st))) \<and>
   (sellItem env e p cur v prices fs mr nv t st = Inr st' \<and>
    redb_oneOrNone st (getOrderId (keccak256 env) (pool e) Sell (Some t)) = Inr False \<longrightarrow>
      orders st' = orders st \<and> statements st' = statements st \<and>
      results st' = results st @ [success (getOrderId (keccak256 env) (pool e) Sell (Some t)) e NewOrder] \<and>
      (\<exists>r. orderValues st' = orderValues st @ [r] \<and>
           order_id r = getOrderId (keccak256 env) (pool e) Sell (Some t))) \<and>
   (buyFillable env e p i cur v prices fs st = Inr st'' \<and> redb_oneOrNone st i = Inr False \<longrightarrow>
      orders st'' = orders st \<and> statements st'' = statements st \<and>
      results st'' = results st @ [success i e NewOrder] \<and>
      (\<exists>r. orderValues st'' = orderValues st @ [r] \<and> order_id r = i))"
proof -
  let ?i = "getOrderId (keccak256 env) (pool e) Sell (Some t)"
  have batch: "statements (flush pre) =
        statements pre @ (if orderValues pre = [] then [] else [InsertIgnore (orderValues pre)]) \<and>
      list_all is_update (statements pre) \<and>
      results (flush pre) = results pre \<and>
      (\<forall>i. count_list (map order_id (orderValues pre)) i =
           count_list (map res_id (filter (\<lambda>r. triggerKind r = Some NewOrder) (results pre))) i) \<and>
      (\<forall>i. count_list (concat (map targets (statements pre))) i =
           count_list (map res_id (filter (\<lambda>r. triggerKind r = Some Reprice) (results pre))) i) \<and>
      set (map order_id (orderValues pre)) \<inter> set (map order_id os) = {} \<and>
      map order_id (orders pre) = map order_id os \<and>
      (\<forall>k<length os. order_id (os ! k) \<notin> set (concat (map targets (statements pre))) \<longrightarrow>
           orders pre ! k = os ! k) \<and>
      (\<forall>x\<in>set (orders pre). \<forall>u. UpdateFillable u \<in> set (statements pre) \<longrightarrow> u_id u = order_id x \<longrightarrow>
           (\<exists>u'. UpdateFillable u' \<in> set (statements pre) \<and> u_id u' = order_id x \<and> refreshed u' x)) \<and>
      (\<forall>x\<in>set (orders pre). \<forall>ts. UpdateNoBalance (order_id x) ts \<in> set (statements pre) \<longrightarrow>
           (\<forall>u. UpdateFillable u \<in> set (statements pre) \<longrightarrow> u_id u \<noteq> order_id x) \<longrightarrow>
           fillability_status x = NoBalance \<and>
           (\<exists>ts'. UpdateNoBalance (order_id x) ts' \<in> set (statements pre) \<and> expiration x = At ts')) \<and>
      (\<forall>i. filter (\<lambda>r. order_id r = i) (orders (flush pre)) =
           (if i \<in> set (map order_id (orders pre)) then filter (\<lambda>r. order_id r = i) (orders pre)
            else take 1 (filter (\<lambda>r. order_id r = i) (orderValues pre)))) \<and>
      (\<exists>ys. orders (flush pre) = orders pre @ ys) \<and>
      (distinct (map order_id os) \<longrightarrow> distinct (map order_id (orders (flush pre))))"
    if h: "allHandled env es os pre"
  proof -
    note tr = allHandled_trace [OF h]
    note tg = allHandled_tagged [OF h]
    have ids: "map order_id (orders pre) = map order_id os"
      by (rule allHandled_ids [OF h])
    have a: "\<forall>k<length os. order_id (os ! k) \<notin> set (concat (map targets (statements pre))) \<longrightarrow>
           orders pre ! k = os ! k"
      unfolding tr(5) using foldl_exec_untouched [OF tr(4)] by blast
    have b: "\<forall>x\<in>set (orders pre). \<forall>u. UpdateFillable u \<in> set (statements pre) \<longrightarrow>
           u_id u = order_id x \<longrightarrow>
           (\<exists>u'. UpdateFillable u' \<in> set (statements pre) \<and> u_id u' = order_id x \<and> refreshed u' x)"
      using foldl_exec_refreshed [OF tr(4), of _ os] unfolding tr(5) [symmetric] by blast
    have c: "\<forall>x\<in>set (orders pre). \<forall>ts. UpdateNoBalance (order_id x) ts \<in> set (statements pre) \<longrightarrow>
           (\<forall>u. UpdateFillable u \<in> set (statements pre) \<longrightarrow> u_id u \<noteq> order_id x) \<longrightarrow>
           fillability_status x = NoBalance \<and>
           (\<exists>ts'. UpdateNoBalance (order_id x) ts' \<in> set (statements pre) \<and> expiration x = At ts')"
      using foldl_exec_no_balance [OF tr(4), of _ os] unfolding tr(5) [symmetric] by blast
    have d: "\<forall>i. filter (\<lambda>r. order_id r = i) (orders (flush pre)) =
           (if i \<in> set (map order_id (orders pre)) then filter (\<lambda>r. order_id r = i) (orders pre)
            else take 1 (filter (\<lambda>r. order_id r = i) (orderValues pre)))"
      unfolding flush_simps by (rule allI) (rule filter_insert_ignore)
    have e: "\<exists>ys. orders (flush pre) = orders pre @ ys"
      unfolding flush_simps by (rule insert_ignore_prefix)
    have f: "distinct (map order_id os) \<longrightarrow> distinct (map order_id (orders (flush pre)))"
      unfolding flush_simps using distinct_insert_ignore [of "orders pre" "orderValues pre"] ids
      by simp
    show ?thesis
      using flush_simps(1,4) [of pre] tr(4) tr(5) tg(2) tg(3) tg(4) ids a b c d e f by blast
  qed
  have su: "orderValues st' = orderValues st \<and>
      results st' = results st @ [success ?i e Reprice] \<and>
      (\<exists>u. statements st' = statements st @ [UpdateFillable u] \<and>
           u_id u = ?i \<and>
           first_price prices = Some (u_price u) \<and> u_value u = v \<and>
           u_quantityRemaining u = 1 \<and> u_txTimestamp u = txTimestamp e \<and>
           u_feeBps u = fst fs \<and> u_feeBreakdown u = snd fs \<and>
           orders st' =
             map (\<lambda>r. if order_id r = u_id u
                       then r\<lparr>fillability_status := Fillable, price := u_price u,
                              currency_price := u_price u, order_value := u_value u,
                              currency_value := u_value u,
                              quantity_remaining := u_quantityRemaining u,
                              valid_between := (u_txTimestamp u, Infinity), expiration := Infinity,
                              raw_data := u_rawData u, missing_royalties := u_missingRoyalties u,
                              normalized_value := u_normalizedValue u,
                              currency_normalized_value := u_currencyNormalizedValue u,
                              fee_bps := u_feeBps u, fee_breakdown := u_feeBreakdown u\<rparr>
                       else r) (orders st))"
    if h: "sellItem env e p cur v prices fs mr nv t st = Inr st'"
      "redb_oneOrNone st ?i = Inr True"
  proof -
    obtain pr where pr: "first_price prices = Some pr"
      and st': "st' = push_result (success ?i e Reprice)
                  (idb_none (UpdateFillable
                     (fillable_update ?i pr v 1 e (sell_sdkOrder env p t pr prices) mr nv fs)) st)"
      using h unfolding sellItem_Inr by auto
    let ?u = "fillable_update ?i pr v 1 e (sell_sdkOrder env p t pr prices) mr nv fs"
    have flds: "u_id ?u = ?i" "u_price ?u = pr" "u_value ?u = v" "u_quantityRemaining ?u = 1"
      "u_txTimestamp ?u = txTimestamp e" "u_feeBps ?u = fst fs" "u_feeBreakdown ?u = snd fs"
      by (simp_all add: fillable_update_def)
    show ?thesis
      using update_pushed [OF st'] pr flds by (intro conjI exI [of _ ?u]) simp_all
  qed
  have bu: "orderValues st'' = orderValues st \<and>
      results st'' = results st @ [success i e Reprice] \<and>
      (\<exists>u. statements st'' = statements st @ [UpdateFillable u] \<and>
           u_id u = i \<and>
           first_price prices = Some (u_price u) \<and> u_value u = v \<and>
           u_quantityRemaining u = length prices \<and> u_txTimestamp u = txTimestamp e \<and>
           u_feeBps u = fst fs \<and> u_feeBreakdown u = snd fs \<and>
           orders st'' =
             map (\<lambda>r. if order_id r = u_id u
                       then r\<lparr>fillability_status := Fillable, price := u_price u,
                              currency_price := u_price u, order_value := u_value u,
                              currency_value := u_value u,
                              quantity_remaining := u_quantityRemaining u,
                              valid_between := (u_txTimestamp u, Infinity), expiration := Infinity,
                              raw_data := u_rawData u, missing_royalties := u_missingRoyalties u,
                              normalized_value := u_normalizedValue u,
                              currency_normalized_value := u_currencyNormalizedValue u,
                              fee_bps := u_feeBps u, fee_breakdown := u_feeBreakdown u\<rparr>
                       else r) (orders st))"
    if h: "buyFillable env e p i cur v prices fs st = Inr st''" "redb_oneOrNone st i = Inr True"
  proof -
    obtain pr mr nv where pr: "first_price prices = Some pr"
      and st': "st'' = push_result (success i e Reprice)
                  (idb_none (UpdateFillable
                     (fillable_update i pr v (length prices) e (buy_sdkOrder env p pr prices) mr nv fs)) st)"
      using h unfolding buyFillable_Inr by auto
    let ?u = "fillable_update i pr v (length prices) e (buy_sdkOrder env p pr prices) mr nv fs"
    have flds: "u_id ?u = i" "u_price ?u = pr" "u_value ?u = v"
      "u_quantityRemaining ?u = length prices"
      "u_txTimestamp ?u = txTimestamp e" "u_feeBps ?u = fst fs" "u_feeBreakdown ?u = snd fs"
      by (simp_all add: fillable_update_def)
    show ?thesis
      using update_pushed [OF st'] pr flds by (intro conjI exI [of _ ?u]) simp_all
  qed
  have sn: "orders st' = orders st \<and> statements st' = statements st \<and>
      results st' = results st @ [success ?i e NewOrder] \<and>
      (\<exists>r. orderValues st' = orderValues st @ [r] \<and> order_id r = ?i)"
    if h: "sellItem env e p cur v prices fs mr nv t st = Inr st'"
      "redb_oneOrNone st ?i = Inr False"
  proof -
    obtain pr ts src where st': "st' = push_result (success ?i e NewOrder)
        (push_orderValues (sell_row env e p ?i ts src cur pr v fs
           (sell_sdkOrder env p t pr prices) mr nv) st)"
      using h unfolding sellItem_Inr by auto
    show ?thesis
      using row_pushed [OF st'] by simp
  qed
  have bn: "orders st'' = orders st \<and> statements st'' = statements st \<and>
      results st'' = results st @ [success i e NewOrder] \<and>
      (\<exists>r. orderValues st'' = orderValues st @ [r] \<and> order_id r = i)"
    if h: "buyFillable env e p i cur v prices fs st = Inr st''" "redb_oneOrNone st i = Inr False"
  proof -
    obtain pr ts src mr a where st': "st'' = push_result (success i e NewOrder)
        (push_orderValues (buy_row env e p i ts src cur pr v prices fs
           (buy_sdkOrder env p pr prices) mr (v - a)) st)"
      using h unfolding buyFillable_Inr by auto
    show ?thesis
      using row_pushed [OF st'] by simp
  qed
  show ?thesis
    using batch su bu sn bn by blast
qed

theorem one_bulk_insert_after_the_updates_witness:
  "allHandled demo_env [demo_event, demo_event] [] demo_twice \<and>
   length (orderValues demo_twice) = 6 \<and>
   statements (flush demo_twice) = [InsertIgnore (orderValues demo_twice)] \<and>
   distinct (map order_id (orders (flush demo_twice))) \<and>
   allHandled demo_env [demo_event] demo_table demo_again \<and>
   orderValues demo_again = [] \<and>
   length (statements (flush demo_again)) = 3 \<and>
   list_all is_update (statements (flush demo_again)) \<and>
   sellItem demo_env demo_event demo_pool ''0xweth'' 1300 [1280] (30, []) [] 1300 ''1''
       (blank demo_table) =
     Inr (handleTokenId demo_env demo_event demo_pool ''0xweth'' 1300 [1280] (30, []) [] 1300
            (blank demo_table) ''1'') \<and>
   redb_oneOrNone (blank demo_table) demo_sell_id = Inr True \<and>
   orderValues (handleTokenId demo_env demo_event demo_pool ''0xweth'' 1300 [1280] (30, []) [] 1300
            (blank demo_table) ''1'') = [] \<and>
   results (handleTokenId demo_env demo_event demo_pool ''0xweth'' 1300 [1280] (30, []) [] 1300
            (blank demo_table) ''1'') = [success demo_sell_id demo_event Reprice] \<and>
   sellItem demo_env demo_event demo_pool ''0xweth'' 1300 [1280] (30, []) [] 1300 ''1'' (blank []) =
     Inr (handleTokenId demo_env demo_event demo_pool ''0xweth'' 1300 [1280] (30, []) [] 1300
            (blank []) ''1'') \<and>
   redb_oneOrNone (blank []) demo_sell_id = Inr False \<and>
   orders (handleTokenId demo_env demo_event demo_pool ''0xweth'' 1300 [1280] (30, []) [] 1300
            (blank []) ''1'') = [] \<and>
   statements (handleTokenId demo_env demo_event demo_pool ''0xweth'' 1300 [1280] (30, []) [] 1300
            (blank []) ''1'') = []"
proof -
  let ?it = "\<lambda>st. handleTokenId demo_env demo_event demo_pool ''0xweth'' 1300 [1280] (30, []) []
                 1300 st ''1''"
  let ?bl = "blank ([] :: (string list \<times> string option list) DbOrder list)"
  have h1: "allHandled demo_env [demo_event, demo_event] [] demo_twice"
    unfolding demo_twice_def by (rule allHandled_sequential)
  have h2: "allHandled demo_env [demo_event] demo_table demo_again"
    unfolding demo_again_def by (rule allHandled_sequential)
  have e1: "length (orderValues demo_twice) = 6" "statements demo_twice = []"
    by (code_simp+)
  have e2: "orderValues demo_again = []" "length (statements demo_again) = 3"
    by (code_simp+)
  have d: "distinct (map order_id ([] :: (string list \<times> string option list) DbOrder list))"
    by simp
  have s1: "sellItem demo_env demo_event demo_pool ''0xweth'' 1300 [1280] (30, []) [] 1300 ''1''
              (blank demo_table) = Inr (?it (blank demo_table))"
    by code_simp
  have r1: "redb_oneOrNone (blank demo_table)
              (getOrderId (keccak256 demo_env) (pool demo_event) Sell (Some ''1'')) = Inr True"
    by code_simp
  have s2: "sellItem demo_env demo_event demo_pool ''0xweth'' 1300 [1280] (30, []) [] 1300 ''1''
              ?bl = Inr (?it ?bl)"
    by code_simp
  have r2: "redb_oneOrNone ?bl
              (getOrderId (keccak256 demo_env) (pool demo_event) Sell (Some ''1'')) = Inr False"
    by code_simp
  have fp: "first_price [1280] = Some 1280"
    by (simp add: first_price_def)
  note A = one_bulk_insert_after_the_updates [where env = demo_env
      and es = "[demo_event, demo_event]" and os = "[]" and pre = demo_twice
      and e = demo_event and p = demo_pool and cur = "''0xweth''" and v = 1300
      and prices = "[1280]" and fs = "(30, [])" and mr = "[]" and nv = 1300 and t = "''1''"
      and st = "blank demo_table" and st' = "?it (blank demo_table)"]
  note B = one_bulk_insert_after_the_updates [where env = demo_env
      and es = "[demo_event]" and os = demo_table and pre = demo_again
      and e = demo_event and p = demo_pool and cur = "''0xweth''" and v = 1300
      and prices = "[1280]" and fs = "(30, [])" and mr = "[]" and nv = 1300 and t = "''1''"
      and st = ?bl and st' = "?it ?bl"]
  note A1 = A [THEN conjunct1, rule_format, OF h1]
  note B1 = B [THEN conjunct1, rule_format, OF h2]
  have a1: "statements (flush demo_twice) = [InsertIgnore (orderValues demo_twice)]"
    using A1 [THEN conjunct1] e1 by auto
  have a2: "distinct (map order_id (orders (flush demo_twice)))"
    using A1 d by blast
  have b1: "length (statements (flush demo_again)) = 3"
    "list_all is_update (statements (flush demo_again))"
    using B1 [THEN conjunct1] B1 [THEN conjunct2, THEN conjunct1] e2 by auto
  note A2 = A [THEN conjunct2, THEN conjunct1, rule_format, OF conjI [OF s1 r1]]
  have c1: "orderValues (?it (blank demo_table)) = []"
    "results (?it (blank demo_table)) = [success demo_sell_id demo_event Reprice]"
    using A2 [THEN conjunct1] A2 [THEN conjunct2, THEN conjunct1]
    by (simp_all add: demo_sell_id_def)
  have c2: "orders (?it ?bl) = []" "statements (?it ?bl) = []"
    using B [THEN conjunct2, THEN conjunct2, THEN conjunct2, THEN conjunct1, rule_format,
        OF conjI [OF s2 r2]] by auto
  show ?thesis
    using h1 e1(1) a1 a2 h2 e2(1) b1 s1 r1 c1 s2 r2 c2 unfolding demo_sell_id_def
    by (intro conjI)
qed

section \<open>Claims about one pool event\<close>

text \<open>
  C6. Take a pool event with the ladder \<open>q0 # qs\<close> and a buy order that the event newly
  creates, that is, buffers for the insert. Then the first quote has a sell price, which is
  the order's value; the order's price is the first raw sell price of the ladder in
  ladder order, so the raw sell price of the first quote when that quote has one; and the
  remaining quantity is the number of quotes of the ladder that carry a raw sell price.
  With three priced depth levels the price is the first and the quantity 3.
\<close>

theorem new_buy_order_price_and_quantity:
  assumes "priceLoop env (pool e) 0 [] = Inr (q0 # qs)"
    and "r \<in> set (drop (length (orderValues st)) (orderValues (handleOrder env st e)))"
    and "order_side r = Buy"
  shows "sell q0 = Some (order_value r) \<and>
         (\<exists>rest. List.map_filter raw_sell (q0 # qs) = price r # rest) \<and>
         (\<forall>x. raw_sell q0 = Some x \<longrightarrow> price r = x) \<and>
         quantity_remaining r = length (filter (\<lambda>q. raw_sell q \<noteq> None) (q0 # qs)) \<and>
         order_id r = getOrderId (keccak256 env) (pool e) Buy None"
proof -
  have "handleOrder env st e \<noteq> st"
    using assms(2) by auto
  then obtain p where d: "getNftPoolDetails env (pool e) = Inr (Some p)" "pool e = allowedPool"
    using handleOrder_cases [of env st e] by blast
  let ?B = "snd (handleBuyOrders env e p (q0 # qs) (0, []) (blank (orders st)))"
  let ?S = "snd (handleSellOrders env e p (q0 # qs) (feesAfterBuy p (q0 # qs) (0, []))
                   (blank (orders st)))"
  obtain b fb where b: "r = b\<lparr>fee_breakdown := fb\<rparr>" "b \<in> set (orderValues ?B) \<union> set (orderValues ?S)"
    using assms(2) unfolding handleOrder_new(1) [OF d assms(1)] by auto
  have "order_side b = Buy"
    using b(1) assms(3) by simp
  then have "b \<notin> set (orderValues ?S)"
    using sell_leg_rows_side [of b env e p "q0 # qs"] by fastforce
  then have "b \<in> set (orderValues ?B)"
    using b(2) by simp
  from buy_leg_rows [OF this]
  obtain v ts src pr mr nv where v: "sell q0 = Some v"
    and pr: "first_price (List.map_filter raw_sell (q0 # qs)) = Some pr"
    and row: "b = buy_row env e p (getOrderId (keccak256 env) (pool e) Buy None) ts src
                    (currency q0) pr v (List.map_filter raw_sell (q0 # qs))
                    (feesAfterBuy p (q0 # qs) (0, []))
                    (buy_sdkOrder env p pr (List.map_filter raw_sell (q0 # qs))) mr nv"
    by auto
  have flds: "price r = pr" "order_value r = v"
    "quantity_remaining r = length (List.map_filter raw_sell (q0 # qs))"
    "order_id r = getOrderId (keccak256 env) (pool e) Buy None"
    unfolding b(1) row by (simp_all add: buy_row_def)
  obtain rest where rest: "List.map_filter raw_sell (q0 # qs) = pr # rest"
    using pr unfolding first_price_Some by blast
  have "raw_sell q0 = Some x \<Longrightarrow> pr = x" for x
    using rest by (simp add: List.map_filter_simps)
  then have px: "\<forall>x. raw_sell q0 = Some x \<longrightarrow> price r = x"
    using flds(1) by blast
  have q: "quantity_remaining r = length (filter (\<lambda>q. raw_sell q \<noteq> None) (q0 # qs))"
    using flds(3) by (simp only: length_map_filter)
  have ex: "\<exists>rest. List.map_filter raw_sell (q0 # qs) = price r # rest"
    using rest flds(1) by blast
  show ?thesis
    using v flds(2,4) q ex px by blast
qed

theorem new_buy_order_price_and_quantity_witness:
  "priceLoop demo_env (pool demo_event) 0 [] = Inr (demo_quote 1 # map demo_quote [2..<11]) \<and>
   order_side demo_buy_row = Buy \<and>
   raw_sell (demo_quote 1) = Some 1100 \<and>
   price demo_buy_row = 1100 \<and>
   quantity_remaining demo_buy_row = 3 \<and>
   sell (demo_quote 1) = Some (order_value demo_buy_row)"
proof -
  have l: "priceLoop demo_env (pool demo_event) 0 [] = Inr (demo_quote 1 # map demo_quote [2..<11])"
    by code_simp
  have m: "demo_buy_row \<in> set (drop (length (orderValues (blank [])))
             (orderValues (handleOrder demo_env (blank []) demo_event)))"
    by code_simp
  have s: "order_side demo_buy_row = Buy"
    by code_simp
  have n: "length (filter (\<lambda>q. raw_sell q \<noteq> None) (demo_quote 1 # map demo_quote [2..<11])) = 3"
    by code_simp
  have x: "raw_sell (demo_quote 1) = Some 1100"
    by (simp add: demo_quote_def)
  show ?thesis
    using new_buy_order_price_and_quantity [OF l m s] l s x n by metis
qed

text \<open>
  C10, as the code has it. The fee pair is shared by the two legs of an event. When the
  first quote has both a sell price and a buy price, every sell order of the event, a
  buffered row or an update (the updates of the sell leg are those whose SDK order names a
  specific token id), carries a fee breakdown of two marketplace entries, the entry of the
  buy leg with \<open>bps.sell\<close> and then the entry of the sell leg with \<open>bps.buy\<close>, and a
  \<open>feeBps\<close> equal to \<open>bps.buy\<close> alone, the rate of the buy direction.
\<close>

theorem sell_orders_fee_fields:
  assumes "getNftPoolDetails env (pool e) = Inr (Some p)"
    and "priceLoop env (pool e) 0 [] = Inr (q0 # qs)"
    and "sell q0 = Some v" and "buy q0 = Some w"
  shows "(\<forall>r\<in>set (drop (length (orderValues st)) (orderValues (handleOrder env st e))).
            order_side r = Sell \<longrightarrow>
            fee_bps r = bps_buy q0 \<and>
            fee_breakdown r = [marketplace p (bps_sell q0), marketplace p (bps_buy q0)]) \<and>
         (\<forall>u. UpdateFillable u \<in> set (drop (length (statements st))
                                          (statements (handleOrder env st e))) \<longrightarrow>
            sp_specificIds (u_rawData u) \<noteq> [] \<longrightarrow>
            u_feeBps u = bps_buy q0 \<and>
            u_feeBreakdown u = [marketplace p (bps_sell q0), marketplace p (bps_buy q0)])"
proof (cases "pool e = allowedPool")
  case False
  then have "handleOrder env st e = st"
    using assms(1) by (simp add: handleOrder_alt)
  then show ?thesis by simp
next
  case True
  let ?pl = "q0 # qs"
  let ?B = "snd (handleBuyOrders env e p ?pl (0, []) (blank (orders st)))"
  let ?S = "snd (handleSellOrders env e p ?pl (feesAfterBuy p ?pl (0, [])) (blank (orders st)))"
  have fs: "feesAfterSell p ?pl (feesAfterBuy p ?pl (0, [])) =
            (bps_buy q0, [marketplace p (bps_sell q0), marketplace p (bps_buy q0)])"
    using assms(3,4) by (simp add: feesAfterSell_def feesAfterBuy_def)
  have rows: "fee_bps r = bps_buy q0 \<and>
              fee_breakdown r = [marketplace p (bps_sell q0), marketplace p (bps_buy q0)]"
    if r: "r \<in> set (drop (length (orderValues st)) (orderValues (handleOrder env st e)))"
      and sd: "order_side r = Sell" for r
  proof -
    obtain b where b: "r = b\<lparr>fee_breakdown := snd (feesAfterSell p ?pl (feesAfterBuy p ?pl (0, [])))\<rparr>"
      "b \<in> set (orderValues ?B) \<union> set (orderValues ?S)"
      using r unfolding handleOrder_new(1) [OF assms(1) True assms(2)] by auto
    have "order_side b = Sell"
      using b(1) sd by simp
    then have "b \<notin> set (orderValues ?B)"
      using buy_leg_rows_side [of b env e p ?pl] by fastforce
    then have "b \<in> set (orderValues ?S)"
      using b(2) by simp
    from sell_leg_rows_fees [OF this] show ?thesis
      unfolding b(1) fs by simp
  qed
  have upds: "u_feeBps u = bps_buy q0 \<and>
              u_feeBreakdown u = [marketplace p (bps_sell q0), marketplace p (bps_buy q0)]"
    if u: "UpdateFillable u \<in> set (drop (length (statements st)) (statements (handleOrder env st e)))"
      and sp: "sp_specificIds (u_rawData u) \<noteq> []" for u
  proof -
    have "UpdateFillable u \<in> set (statements ?B) \<union> set (statements ?S)"
      using u unfolding handleOrder_new(2) [OF assms(1) True assms(2)] by simp
    moreover have "UpdateFillable u \<notin> set (statements ?B)"
      using buy_leg_updates_fees(3) [of u env e p ?pl] sp by blast
    ultimately have "UpdateFillable u \<in> set (statements ?S)"
      by simp
    from sell_leg_updates_fees(1,2) [OF this] show ?thesis
      unfolding fs by simp
  qed
  show ?thesis
    using rows upds by blast
qed

theorem sell_orders_fee_fields_witness:
  "getNftPoolDetails demo_env (pool demo_event) = Inr (Some demo_pool) \<and>
   priceLoop demo_env (pool demo_event) 0 [] = Inr (demo_quote 1 # map demo_quote [2..<11]) \<and>
   sell (demo_quote 1) = Some 1080 \<and> buy (demo_quote 1) = Some 1300 \<and>
   order_side demo_sell_row = Sell \<and>
   fee_bps demo_sell_row = bps_buy (demo_quote 1) \<and>
   fee_breakdown demo_sell_row =
     [marketplace demo_pool (bps_sell (demo_quote 1)), marketplace demo_pool (bps_buy (demo_quote 1))]"
proof -
  have d: "getNftPoolDetails demo_env (pool demo_event) = Inr (Some demo_pool)"
    by (simp add: demo_env_def demo_event_def demo_pool_def)
  have l: "priceLoop demo_env (pool demo_event) 0 [] = Inr (demo_quote 1 # map demo_quote [2..<11])"
    by code_simp
  have q: "sell (demo_quote 1) = Some 1080" "buy (demo_quote 1) = Some 1300"
    by (simp_all add: demo_quote_def)
  have m: "demo_sell_row \<in> set (drop (length (orderValues (blank [])))
             (orderValues (handleOrder demo_env (blank []) demo_event)))"
    by code_simp
  have s: "order_side demo_sell_row = Sell"
    by code_simp
  show ?thesis
    using sell_orders_fee_fields [OF d l q, of "blank []"] d l q m s by blast
qed

text \<open>
  C10 as stated gives the sell orders a \<open>feeBps\<close> equal to the sell-direction bps. The
  example quote has 50 bps in the sell direction and 30 bps in the buy direction, and the
  sell order carries 30.
\<close>

theorem sell_order_fee_bps_counterexample:
  "order_side demo_sell_row = Sell \<and>
   bps_sell (demo_quote 1) = 50 \<and> bps_buy (demo_quote 1) = 30 \<and>
   fee_bps demo_sell_row = 30 \<and>
   fee_bps demo_sell_row \<noteq> bps_sell (demo_quote 1)"
  by code_simp

section \<open>Claims about failures and about repeated events\<close>

text \<open>
  C8. Failures are contained at the smallest enclosing unit, and none aborts the batch.

  \<^item> The batch: in every run of the batch, whatever the schedule, the results, the
    buffered rows and the statements are interleavings of what the single events record
    when handled alone on the starting table, the records of each event in its own order;
    the table is the starting table with the statements executed in the order of issue;
    every result has the status success, and the bulk insert leaves the results as they
    are. Tasks started together, from any state, run to their end, so no failure aborts the
    batch; handling the events one after the other is one such run, and the task of an
    event, run alone, does what \<open>handleOrder\<close> does.
  \<^item> An event whose pool details are rejected or null, whose pool is not the allowed one,
    or one of whose quotes is rejected, leaves the state as it is.
  \<^item> An event that reaches its legs adds what the buy leg records alone and what the sell
    leg records alone, both on the table the event found. The sell leg takes from the buy
    leg only the fee pair, and the fee pair after a leg depends on the pool and the ladder
    alone, not on the leg's failing.
  \<^item> A buy leg whose body fails, and a sell leg that fails before its loop, leave the state
    as it is.
  \<^item> The loop of the sell leg adds, for each token id in turn, what that token id records
    alone; a token id whose step fails leaves the state as it is.
\<close>

theorem failures_are_contained:
  "(allHandled env es os pre \<longrightarrow>
      interleaved (map (\<lambda>e. results (handleOrder env (blank os) e)) es) (results pre) \<and>
      interleaved (map (\<lambda>e. orderValues (handleOrder env (blank os) e)) es) (orderValues pre) \<and>
      interleaved (map (\<lambda>e. statements (handleOrder env (blank os) e)) es) (statements pre) \<and>
      orders pre = foldl (\<lambda>os s. exec s os) os (statements pre) \<and>
      results (flush pre) = results pre \<and>
      list_all (\<lambda>r. status r = ''success'') (results pre)) \<and>
   runs ts st0 (foldl (\<lambda>s t. run t s) st0 ts) \<and>
   allHandled env es os (handleAll env es os) \<and>
   run (eventTask env e) st = handleOrder env st e \<and>
   ((\<exists>err. getNftPoolDetails env (pool e) = Inl err) \<or> getNftPoolDetails env (pool e) = Inr None \<or>
    pool e \<noteq> allowedPool \<or> (\<exists>err. priceLoop env (pool e) 0 [] = Inl err) \<longrightarrow>
      handleOrder env st e = st) \<and>
   (getNftPoolDetails env (pool e) = Inr (Some p) \<and> pool e = allowedPool \<and>
    priceLoop env (pool e) 0 [] = Inr pl \<longrightarrow>
      handleOrder env st e =
        shareFeeBreakdown (length (orderValues st))
          (snd (feesAfterSell p pl (feesAfterBuy p pl (0, []))))
          (extend (extend st (snd (handleBuyOrders env e p pl (0, []) (blank (orders st)))))
             (snd (handleSellOrders env e p pl (feesAfterBuy p pl (0, [])) (blank (orders st)))))) \<and>
   fst (handleBuyOrders env e p pl fs st) = feesAfterBuy p pl fs \<and>
   fst (handleSellOrders env e p pl fs st) = feesAfterSell p pl fs \<and>
   (sell q0 = Some v \<and>
    buyFillable env e p (getOrderId (keccak256 env) (pool e) Buy None) (currency q0) v
      (List.map_filter raw_sell (q0 # qs)) (feesAfterBuy p (q0 # qs) fs) st = Inl err \<longrightarrow>
      snd (handleBuyOrders env e p (q0 # qs) fs st) = st) \<and>
   (buy q0 = Some v \<and> sellPrepare env p v (List.map_filter raw_buy (q0 # qs)) = Inl err \<longrightarrow>
      snd (handleSellOrders env e p (q0 # qs) fs st) = st) \<and>
   (buy q0 = Some v \<and>
    sellPrepare env p v (List.map_filter raw_buy (q0 # qs)) = Inr (mr, nv, ids) \<longrightarrow>
      snd (handleSellOrders env e p (q0 # qs) fs st) =
        foldl (\<lambda>s t. extend s
                 (handleTokenId env e p (currency q0) v (List.map_filter raw_buy (q0 # qs))
                    (feesAfterSell p (q0 # qs) fs) mr nv (blank (orders st)) t)) st ids) \<and>
   (sellItem env e p cur v prices fs mr nv t st = Inl err \<longrightarrow>
      handleTokenId env e p cur v prices fs mr nv st t = st)"
proof -
  have a: "interleaved (map (\<lambda>e. results (handleOrder env (blank os) e)) es) (results pre) \<and>
      interleaved (map (\<lambda>e. orderValues (handleOrder env (blank os) e)) es) (orderValues pre) \<and>
      interleaved (map (\<lambda>e. statements (handleOrder env (blank os) e)) es) (statements pre) \<and>
      orders pre = foldl (\<lambda>os s. exec s os) os (statements pre) \<and>
      results (flush pre) = results pre \<and>
      list_all (\<lambda>r. status r = ''success'') (results pre)"
    if h: "allHandled env es os pre"
  proof -
    have "list_all (\<lambda>r. status r = ''success'') (results pre)"
      using allHandled_tagged(1) [OF h] by (simp add: list_all_iff)
    then show ?thesis
      using allHandled_trace(1,2,3,5) [OF h] flush_simps(1) [of pre] by blast
  qed
  have ev: "(\<exists>err. getNftPoolDetails env (pool e) = Inl err) \<or>
      getNftPoolDetails env (pool e) = Inr None \<or>
      pool e \<noteq> allowedPool \<or> (\<exists>err. priceLoop env (pool e) 0 [] = Inl err) \<longrightarrow>
      handleOrder env st e = st"
    by (auto simp: handleOrder_alt split: sum.splits option.splits)
  have lg: "getNftPoolDetails env (pool e) = Inr (Some p) \<and> pool e = allowedPool \<and>
    priceLoop env (pool e) 0 [] = Inr pl \<longrightarrow>
      handleOrder env st e =
        shareFeeBreakdown (length (orderValues st))
          (snd (feesAfterSell p pl (feesAfterBuy p pl (0, []))))
          (extend (extend st (snd (handleBuyOrders env e p pl (0, []) (blank (orders st)))))
             (snd (handleSellOrders env e p pl (feesAfterBuy p pl (0, [])) (blank (orders st)))))"
    using handleOrder_legs [of env e p pl st] by blast
  have lb: "sell q0 = Some v \<and>
    buyFillable env e p (getOrderId (keccak256 env) (pool e) Buy None) (currency q0) v
      (List.map_filter raw_sell (q0 # qs)) (feesAfterBuy p (q0 # qs) fs) st = Inl err \<longrightarrow>
      snd (handleBuyOrders env e p (q0 # qs) fs st) = st"
    by (simp add: snd_handleBuyOrders)
  have ls: "buy q0 = Some v \<and> sellPrepare env p v (List.map_filter raw_buy (q0 # qs)) = Inl err \<longrightarrow>
      snd (handleSellOrders env e p (q0 # qs) fs st) = st"
    by (simp add: snd_handleSellOrders)
  have it: "buy q0 = Some v \<and>
    sellPrepare env p v (List.map_filter raw_buy (q0 # qs)) = Inr (mr, nv, ids) \<longrightarrow>
      snd (handleSellOrders env e p (q0 # qs) fs st) =
        foldl (\<lambda>s t. extend s
                 (handleTokenId env e p (currency q0) v (List.map_filter raw_buy (q0 # qs))
                    (feesAfterSell p (q0 # qs) fs) mr nv (blank (orders st)) t)) st ids"
    using foldl_extend [of "handleTokenId env e p (currency q0) v (List.map_filter raw_buy (q0 # qs))
                    (feesAfterSell p (q0 # qs) fs) mr nv" st "orders st" ids,
        OF isolated_handleTokenId]
    by (simp add: sell_leg_items)
  have itf: "sellItem env e p cur v prices fs mr nv t st = Inl err \<longrightarrow>
      handleTokenId env e p cur v prices fs mr nv st t = st"
    by (simp add: handleTokenId_def)
  show ?thesis
    using a runs_sequential [of ts st0] allHandled_sequential [of env es os]
      run_eventTask [of env e st] ev lg lb ls it itf
      fst_handleBuyOrders [of env e p pl fs st] fst_handleSellOrders [of env e p pl fs st]
    by blast
qed

theorem failures_are_contained_witness:
  "pool foreign_event \<noteq> allowedPool \<and>
   handleOrder flaky_env (blank []) foreign_event = blank [] \<and>
   sellItem flaky_env demo_event demo_pool ''0xweth'' 1300 [1280] (30, []) [] 1300 ''1'' (blank [])
     = Inl (Error ''registry down'') \<and>
   handleTokenId flaky_env demo_event demo_pool ''0xweth'' 1300 [1280] (30, []) [] 1300 (blank []) ''1''
     = blank [] \<and>
   allHandled flaky_env [foreign_event, demo_event] [] (handleAll flaky_env [foreign_event, demo_event] []) \<and>
   interleaved [[], results (handleOrder flaky_env (blank []) demo_event)]
     (results (handleAll flaky_env [foreign_event, demo_event] [])) \<and>
   list_all (\<lambda>r. status r = ''success'')
     (results (handleAll flaky_env [foreign_event, demo_event] [])) \<and>
   map res_id (results (handleOrder flaky_env (blank []) demo_event)) =
     [getOrderId (keccak256 flaky_env) allowedPool Buy None,
      getOrderId (keccak256 flaky_env) allowedPool Sell (Some ''2'')] \<and>
   map triggerKind (results (handleOrder flaky_env (blank []) demo_event)) =
     [Some NewOrder, Some NewOrder]"
proof -
  have f: "pool foreign_event \<noteq> allowedPool"
    by code_simp
  have i: "sellItem flaky_env demo_event demo_pool ''0xweth'' 1300 [1280] (30, []) [] 1300 ''1''
             (blank []) = Inl (Error ''registry down'')"
    by code_simp
  have d: "map res_id (results (handleOrder flaky_env (blank []) demo_event)) =
     [getOrderId (keccak256 flaky_env) allowedPool Buy None,
      getOrderId (keccak256 flaky_env) allowedPool Sell (Some ''2'')]"
    "map triggerKind (results (handleOrder flaky_env (blank []) demo_event)) =
     [Some NewOrder, Some NewOrder]"
    by (code_simp+)
  note T = failures_are_contained [where env = flaky_env and es = "[foreign_event, demo_event]"
      and os = "[]" and pre = "handleAll flaky_env [foreign_event, demo_event] []"
      and e = foreign_event and st = "blank []" and cur = "''0xweth''"
      and v = 1300 and prices = "[1280]" and fs = "(30, [])" and mr = "[]" and nv = 1300
      and t = "''1''" and p = demo_pool and err = "Error ''registry down''"]
  note T' = failures_are_contained [where env = flaky_env and e = demo_event
      and st = "blank []" and cur = "''0xweth''" and v = 1300 and prices = "[1280]"
      and fs = "(30, [])" and mr = "[]" and nv = 1300 and t = "''1''" and p = demo_pool
      and err = "Error ''registry down''"]
  have skip: "handleOrder flaky_env (blank []) foreign_event = blank []"
    using T f by blast
  have item: "handleTokenId flaky_env demo_event demo_pool ''0xweth'' 1300 [1280] (30, []) []
                1300 (blank []) ''1'' = blank []"
    using T' i by blast
  have h: "allHandled flaky_env [foreign_event, demo_event] []
             (handleAll flaky_env [foreign_event, demo_event] [])"
    using T by blast
  note B = T [THEN conjunct1, rule_format, OF h]
  have il: "interleaved [[], results (handleOrder flaky_env (blank []) demo_event)]
     (results (handleAll flaky_env [foreign_event, demo_event] []))"
    using B [THEN conjunct1] by (simp add: skip)
  have su: "list_all (\<lambda>r. status r = ''success'')
     (results (handleAll flaky_env [foreign_event, demo_event] []))"
    using B by blast
  show ?thesis
    using f i skip item h il su d by (intro conjI)
qed

text \<open>
  C1, as the code has it. Take a batch handled on a table \<open>os\<close>, in any schedule, and
  handled again in any schedule, with the same oracle data, on a table \<open>os'\<close> that has
  the order ids which the first call left: the table it left, or that table after later
  calls, none of which changes the ids. The later call creates no row: it buffers nothing,
  so there is no insert, it issues updates only and leaves the order ids of the table as
  they were. Every result it returns is tagged reprice, and every id occurs as often among
  its updates as among its results. Every identity that the first call recorded as
  new-order was not in the table before, has exactly one row after the first call, is
  recorded as reprice by the later call, and its one row then carries the price, the value,
  the quantity, the validity, the royalties and the fee fields of an update of that
  identity which the later call issued. If the order ids of the starting table are
  distinct, so are those of the table after each call: at most one row per identity.
\<close>

theorem reconciling_again_reprices:
  assumes "allHandled env es os pre1"
    and "map order_id os' = map order_id (orders (flush pre1))"
    and "allHandled env es os' pre2"
  shows "orderValues pre2 = [] \<and> flush pre2 = pre2 \<and>
     list_all is_update (statements pre2) \<and>
     map order_id (orders pre2) = map order_id os' \<and>
     list_all (\<lambda>r. triggerKind r = Some Reprice) (results pre2) \<and>
     (\<forall>i. count_list (concat (map targets (statements pre2))) i =
          count_list (map res_id (results pre2)) i) \<and>
     (\<forall>r\<in>set (results pre1). triggerKind r = Some NewOrder \<longrightarrow>
         res_id r \<notin> set (map order_id os) \<and>
         length (filter (\<lambda>x. order_id x = res_id r) (orders (flush pre1))) = 1 \<and>
         (\<exists>r'\<in>set (results pre2). res_id r' = res_id r \<and> triggerKind r' = Some Reprice) \<and>
         (\<exists>x u. filter (\<lambda>x. order_id x = res_id r) (orders pre2) = [x] \<and>
                UpdateFillable u \<in> set (statements pre2) \<and> u_id u = res_id r \<and>
                refreshed u x)) \<and>
     (distinct (map order_id os) \<longrightarrow>
        distinct (map order_id (orders (flush pre1))) \<and> distinct (map order_id (orders pre2)))"
proof -
  let ?H = "\<lambda>os e. handleOrder env (blank os) e"
  define os1 where "os1 = orders (flush pre1)"
  have os1: "os1 = foldl insert_ignore (orders pre1) (orderValues pre1)"
    by (simp add: os1_def flush_simps)
  have ids1: "map order_id (orders pre1) = map order_id os"
    by (rule allHandled_ids [OF assms(1)])
  have ids': "map order_id os' = map order_id os1"
    using assms(2) by (simp add: os1_def)
  have ids2: "map order_id (orders pre2) = map order_id os'"
    by (rule allHandled_ids [OF assms(3)])
  have fresh1: "set (map order_id (orderValues pre1)) \<inter> set (map order_id os) = {}"
    by (rule allHandled_tagged(2) [OF assms(1)])
  have sub: "set (map order_id os) \<subseteq> set (map order_id os')"
    unfolding ids' os1 set_ids_insert_ignore ids1 by blast
  have cnt1: "length (filter (\<lambda>x. order_id x = i) os1) = 1"
    if "i \<in> set (map order_id (orderValues pre1))" for i
    using that fresh1 ids1 unfolding os1 count_insert_ignore by auto
  have cnt': "length (filter (\<lambda>x. order_id x = i) os') = 1"
    if "i \<in> set (map order_id (orderValues pre1))" for i
    using cnt1 [OF that] unfolding count_ids ids' .
  have cnt2: "length (filter (\<lambda>x. order_id x = i) (orders pre2)) = 1"
    if "i \<in> set (map order_id (orderValues pre1))" for i
    using cnt' [OF that] unfolding count_ids ids2 .
  have rp: "orderValues (?H os' e) = [] \<and>
      (\<forall>r\<in>set (results (?H os e)). triggerKind r = Some NewOrder \<longrightarrow>
          (\<exists>r'\<in>set (results (?H os' e)).
              res_id r' = res_id r \<and> triggerKind r' = Some Reprice) \<and>
          (\<exists>u. UpdateFillable u \<in> set (statements (?H os' e)) \<and> u_id u = res_id r))"
    if e: "e \<in> set es" for e
  proof -
    have "\<forall>r\<in>set (orderValues (?H os e)). length (filter (\<lambda>x. order_id x = order_id r) os') = 1"
    proof
      fix r
      assume "r \<in> set (orderValues (?H os e))"
      then have "r \<in> set (orderValues pre1)"
        unfolding allHandled_sets(2) [OF assms(1)] using e by blast
      then have "order_id r \<in> set (map order_id (orderValues pre1))"
        by simp
      then show "length (filter (\<lambda>x. order_id x = order_id r) os') = 1"
        by (rule cnt')
    qed
    then show ?thesis
      using replays_handleOrder [of os os' env e, unfolded replays_def] sub by blast
  qed
  have none2: "orderValues pre2 = []"
  proof -
    have "set (orderValues pre2) = {}"
      unfolding allHandled_sets(2) [OF assms(3)] using rp by simp
    then show ?thesis by simp
  qed
  have fl: "flush pre2 = pre2"
    by (simp add: flush_def none2)
  have upd2: "list_all is_update (statements pre2)"
    by (rule allHandled_trace(4) [OF assms(3)])
  have tab2: "orders pre2 = foldl (\<lambda>os s. exec s os) os' (statements pre2)"
    by (rule allHandled_trace(5) [OF assms(3)])
  have rep2: "list_all (\<lambda>r. triggerKind r = Some Reprice) (results pre2)"
    unfolding list_all_iff
  proof
    fix r
    assume r: "r \<in> set (results pre2)"
    have "triggerKind r \<noteq> Some NewOrder"
    proof
      assume "triggerKind r = Some NewOrder"
      then have "res_id r \<in> set (map res_id (filter (\<lambda>r. triggerKind r = Some NewOrder)
                                                   (results pre2)))"
        using r by simp
      then have "count_list (map res_id (filter (\<lambda>r. triggerKind r = Some NewOrder)
                                            (results pre2))) (res_id r) \<noteq> 0"
        by (simp only: count_list_0_iff not_not)
      then show False
        using allHandled_tagged(3) [OF assms(3), of "res_id r"] by (simp add: none2)
    qed
    then show "triggerKind r = Some Reprice"
      using allHandled_tagged(1) [OF assms(3)] r by (auto simp: list_all_iff)
  qed
  have all2: "filter (\<lambda>r. triggerKind r = Some Reprice) (results pre2) = results pre2"
    using rep2 by (simp add: list_all_iff)
  have cnt_st: "\<forall>i. count_list (concat (map targets (statements pre2))) i =
          count_list (map res_id (results pre2)) i"
    using allHandled_tagged(4) [OF assms(3)] unfolding all2 by blast
  have each: "res_id r \<notin> set (map order_id os) \<and>
         length (filter (\<lambda>x. order_id x = res_id r) (orders (flush pre1))) = 1 \<and>
         (\<exists>r'\<in>set (results pre2). res_id r' = res_id r \<and> triggerKind r' = Some Reprice) \<and>
         (\<exists>x u. filter (\<lambda>x. order_id x = res_id r) (orders pre2) = [x] \<and>
                UpdateFillable u \<in> set (statements pre2) \<and> u_id u = res_id r \<and>
                refreshed u x)"
    if r: "r \<in> set (results pre1)" and k: "triggerKind r = Some NewOrder" for r
  proof -
    obtain e where e: "e \<in> set es" "r \<in> set (results (?H os e))"
      using r unfolding allHandled_sets(1) [OF assms(1)] by blast
    have "res_id r \<in> set (map res_id (filter (\<lambda>r. triggerKind r = Some NewOrder)
                                                (results (?H os e))))"
      using e(2) k by simp
    then have "res_id r \<in> set (map order_id (orderValues (?H os e)))"
      using handleOrder_alone_tagged [of env os e] unfolding tagged_def by simp
    then have m: "res_id r \<in> set (map order_id (orderValues pre1))"
      unfolding set_map allHandled_sets(2) [OF assms(1)] using e(1) by blast
    have n: "res_id r \<notin> set (map order_id os)"
      using m fresh1 by blast
    obtain r' u where r': "r' \<in> set (results (?H os' e))" "res_id r' = res_id r"
      "triggerKind r' = Some Reprice"
      and u: "UpdateFillable u \<in> set (statements (?H os' e))" "u_id u = res_id r"
      using rp [OF e(1)] e(2) k by blast
    have r2: "r' \<in> set (results pre2)"
      unfolding allHandled_sets(1) [OF assms(3)] using e(1) r'(1) by blast
    have u2: "UpdateFillable u \<in> set (statements pre2)"
      unfolding allHandled_sets(3) [OF assms(3)] using e(1) u(1) by blast
    obtain x where x: "filter (\<lambda>x. order_id x = res_id r) (orders pre2) = [x]"
      using cnt2 [OF m] by (auto simp: length_Suc_conv)
    have "x \<in> set (filter (\<lambda>x. order_id x = res_id r) (orders pre2))"
      unfolding x by simp
    then have xin: "x \<in> set (orders pre2)" and xid: "order_id x = res_id r"
      by simp_all
    obtain u' where u': "UpdateFillable u' \<in> set (statements pre2)" "u_id u' = order_id x"
      "refreshed u' x"
      using foldl_exec_refreshed [OF upd2, of x os' u] xin u2 u(2) xid unfolding tab2 by auto
    show ?thesis
      using n cnt1 [OF m] r2 r'(2,3) x u' xid unfolding os1_def by auto
  qed
  have dist: "distinct (map order_id os) \<longrightarrow>
        distinct (map order_id (orders (flush pre1))) \<and> distinct (map order_id (orders pre2))"
    using ids1 distinct_insert_ignore [of "orders pre1" "orderValues pre1"]
    unfolding ids2 ids' os1 flush_simps by simp
  show ?thesis
    using none2 fl upd2 ids2 rep2 cnt_st each dist by blast
qed

theorem reconciling_again_reprices_witness:
  "allHandled demo_env [demo_event] [] (handleAll demo_env [demo_event] []) \<and>
   allHandled demo_env [demo_event] demo_table demo_again \<and>
   map triggerKind (results (handleAll demo_env [demo_event] [])) =
     [Some NewOrder, Some NewOrder, Some NewOrder] \<and>
   length demo_table = 3 \<and>
   length (results demo_again) = 3 \<and>
   list_all (\<lambda>r. triggerKind r = Some Reprice) (results demo_again) \<and>
   orderValues demo_again = [] \<and>
   flush demo_again = demo_again \<and>
   length (orders demo_again) = 3 \<and>
   distinct (map order_id (orders demo_again))"
proof -
  have h1: "allHandled demo_env [demo_event] [] (handleAll demo_env [demo_event] [])"
    by (rule allHandled_sequential)
  have h2: "allHandled demo_env [demo_event] demo_table demo_again"
    unfolding demo_again_def by (rule allHandled_sequential)
  have t: "map order_id demo_table = map order_id (orders (flush (handleAll demo_env [demo_event] [])))"
    by (simp add: demo_table_def)
  have a: "map triggerKind (results (handleAll demo_env [demo_event] [])) =
     [Some NewOrder, Some NewOrder, Some NewOrder]"
    "length demo_table = 3" "length (results demo_again) = 3"
    by (code_simp+)
  have d: "distinct (map order_id ([] :: (string list \<times> string option list) DbOrder list))"
    by simp
  note T = reconciling_again_reprices [OF h1 t h2]
  have c: "length (orders demo_again) = 3"
    using T a(2) by (metis length_map)
  show ?thesis
    using T h1 h2 a c d by blast
qed

text \<open>
  C1 as stated has the first reconciliation of an identity recorded as new-order and every
  later one as reprice. Two copies of one event in one batch are both handled before the
  bulk insert, so neither sees the rows of the other: all six results are tagged
  new-order, the last three having the identities of the first three, six rows are
  buffered and the insert keeps three. And an identity first reconciled while its pool
  quotes no price is recorded as reprice, with no row.
\<close>

theorem repeated_reconciliation_counterexample:
  "map triggerKind (results (fst (save demo_env [demo_event, demo_event] []))) =
     [Some NewOrder, Some NewOrder, Some NewOrder, Some NewOrder, Some NewOrder, Some NewOrder] \<and>
   map res_id (drop 3 (results (fst (save demo_env [demo_event, demo_event] [])))) =
     map res_id (take 3 (results (fst (save demo_env [demo_event, demo_event] [])))) \<and>
   length (orderValues (fst (save demo_env [demo_event, demo_event] []))) = 6 \<and>
   length (orders (fst (save demo_env [demo_event, demo_event] []))) = 3 \<and>
   map triggerKind (results (fst (save dry_env [demo_event] []))) = [Some Reprice] \<and>
   orders (fst (save dry_env [demo_event] [])) = []"
  by code_simp

end
